theory Spec2Isabelle
  imports
    Complex_Main
    "HOL-Library.AList"
    "HOL-Library.Char_ord"
    "HOL-Library.List_Lexorder"
    "HOL-Library.Product_Lexorder"
begin

section \<open>JavaScript numbers\<close>

text \<open>
  A JavaScript number is a finite value, \<open>NaN\<close> or one of the two infinities. A finite
  value is the rational number it denotes; the sign of zero is not modelled. Comparison
  and \<open>Math.min\<close> are exact on these values. Products and quotients are rounded by the
  runtime and are taken from it (see \<open>runtime\<close> below).
\<close>

datatype jsnum = Num rat | NaN | PosInf | NegInf

text \<open>\<open>a < b\<close> of JavaScript: every comparison with \<open>NaN\<close> is false.\<close>

fun js_less :: "jsnum \<Rightarrow> jsnum \<Rightarrow> bool" where
  "js_less NaN _ = False"
| "js_less _ NaN = False"
| "js_less (Num a) (Num b) = (a < b)"
| "js_less NegInf NegInf = False"
| "js_less NegInf _ = True"
| "js_less _ NegInf = False"
| "js_less PosInf _ = False"
| "js_less _ PosInf = True"

text \<open>\<open>Math.min(a, b)\<close>: \<open>NaN\<close> if either argument is \<open>NaN\<close>.\<close>

fun Math_min :: "jsnum \<Rightarrow> jsnum \<Rightarrow> jsnum" where
  "Math_min NaN _ = NaN"
| "Math_min _ NaN = NaN"
| "Math_min a b = (if js_less b a then b else a)"

section \<open>Task metadata and the values kept in the store\<close>

text \<open>
  \<open>metadata\<close> of a task (task.js, constructor). The keys the constructor always sets are
  total fields; \<open>removeAfter\<close>, \<open>broadcastAll\<close> and \<open>error\<close> may be undefined.
  \<open>progress\<close> is \<open>None\<close> when it holds \<open>null\<close> (as after \<open>finalize("failure", null, ...)\<close>).
\<close>

record metadata =
  created :: nat
  state :: string
  progress :: "jsnum option"
  broadcasts :: "string list"
  attempts :: int
  priority :: int
  maxAttempts :: int
  removeAfter :: "nat option"
  broadcastAll :: "bool option"
  error :: "string option"

text \<open>
  JavaScript values: what \<open>JSON.parse\<close> returns, what is passed as event arguments and
  to \<open>parseFloat\<close>. A function carries the text \<open>toString\<close> gives after the keyword
  \<open>function\<close>.
\<close>

datatype jsval =
    VNum jsnum
  | VStr string
  | VBool bool
  | VFun string
  | VUndefined
  | VNull
  | VArr "jsval list"
  | VObj "(string \<times> jsval) list"

text \<open>
  What the code takes from the runtime and from user code: the floating-point product
  and quotient \<open>a * b\<close> and \<open>a / b\<close>; \<open>JSON.parse\<close> (\<open>None\<close>: it throws a syntax error);
  the text of a number when it is used as a property name; which names are properties
  that every object inherits (\<open>constructor\<close>, \<open>toString\<close>, ...); and whether emitting an
  event (given by its arguments) on a task makes a listener throw.
\<close>

record runtime =
  times :: "jsnum \<Rightarrow> jsnum \<Rightarrow> jsnum"
  divide :: "jsnum \<Rightarrow> jsnum \<Rightarrow> jsnum"
  JSON_parse :: "string \<Rightarrow> jsval option"
  Number_toString :: "jsnum \<Rightarrow> string"
  inherited :: "string \<Rightarrow> bool"
  listener_throws :: "string \<Rightarrow> jsval list \<Rightarrow> bool"

text \<open>
  A hash field holds text. \<open>HText s\<close> is the text \<open>s\<close>; \<open>HMeta m\<close> stands for the JSON
  text from which \<open>JSON.parse\<close> gives the metadata \<open>m\<close>. As a value handed to the
  transport, \<open>HText s\<close> is the number or string whose text is \<open>s\<close> and \<open>HMeta m\<close> the
  metadata object \<open>m\<close>.
\<close>

datatype hval = HText string | HMeta metadata

text \<open>
  \<open>JSON.stringify\<close> writes \<open>NaN\<close> and the infinities as \<open>null\<close>. Of the metadata only
  \<open>progress\<close> can hold such a number.
\<close>

definition JSON_number :: "jsnum option \<Rightarrow> jsnum option" where
  "JSON_number p = (case p of Some (Num q) \<Rightarrow> Some (Num q) | _ \<Rightarrow> None)"

definition JSON_metadata :: "metadata \<Rightarrow> metadata" where
  "JSON_metadata md = md\<lparr>progress := JSON_number (progress md)\<rparr>"

fun JSON_stringify :: "hval \<Rightarrow> hval" where
  "JSON_stringify (HText s) = HText s"
| "JSON_stringify (HMeta m) = HMeta (JSON_metadata m)"

text \<open>
  The same for the arguments of an event, which \<open>Dispatcher.broadcast\<close> writes as the
  object \<open>arguments\<close>: a property that is \<open>undefined\<close> or a function is left out of an
  object and written as \<open>null\<close> in an array.
\<close>

fun unwritten :: "jsval \<Rightarrow> bool" where
  "unwritten VUndefined = True"
| "unwritten (VFun body) = True"
| "unwritten v = False"

fun JSON_value :: "jsval \<Rightarrow> jsval" where
  "JSON_value (VNum (Num q)) = VNum (Num q)"
| "JSON_value (VNum n) = VNull"
| "JSON_value (VArr xs) = VArr (map (\<lambda>x. if unwritten x then VNull else JSON_value x) xs)"
| "JSON_value (VObj fs) =
     VObj (map (\<lambda>kv. (fst kv, JSON_value (snd kv))) (filter (\<lambda>kv. \<not> unwritten (snd kv)) fs))"
| "JSON_value v = v"

definition JSON_arguments :: "jsval list \<Rightarrow> jsval list" where
  "JSON_arguments args = map JSON_value (filter (\<lambda>v. \<not> unwritten v) args)"

text \<open>
  The envelope \<open>{id, event, args}\<close> that \<open>Dispatcher.broadcast\<close> publishes, as a reader
  parses it.
\<close>

record envelope =
  env_id :: string
  env_event :: string
  env_args :: "jsval list"

section \<open>The backing store\<close>

text \<open>
  The commands of the store that the transport (src/unnamed/part_000) issues for the
  operations modelled here. \<open>ZPOP key\<close> is the transaction
  \<open>MULTI; ZRANGE key 0 0; ZREMRANGEBYRANK key 0 0; EXEC\<close> of \<open>sortedPop\<close>.
\<close>

datatype command =
    DEL string
  | HGET string string
  | HSET string string hval
  | HMSET string "(string \<times> hval) list"
  | HDEL string "string list"
  | RPUSH string "string list"
  | ZADD string "(int \<times> string) list"
  | EXPIRE string nat
  | BLPOP string nat
  | ZPOP string
  | PUBLISH string envelope

datatype reply =
    ROk
  | RList "reply list"
  | RField "hval option"
  | RPopped string string
  | RMember "string option"
  | RNum jsnum
  | RMeta metadata

text \<open>
  The state of the store, which is not part of the repository: the commands behave as
  the store documents them. Hashes, lists and sorted sets are kept apart (a key is used
  for one kind only). A hash is the list of its fields with their values, each field
  once. A sorted set is the list of its (score, member) pairs in the order the store
  keeps them: ascending by score, members of equal score in the lexicographic order of
  their bytes; rank 0 is the first pair. \<open>link\<close> is the number of commands the connection
  still carries before it breaks (\<open>None\<close>: it never breaks); \<open>cmd_log\<close> lists the commands
  the store has executed, oldest first.
\<close>

record store =
  hashes :: "string \<Rightarrow> (string \<times> hval) list"
  lists :: "string \<Rightarrow> string list"
  zsets :: "string \<Rightarrow> (int \<times> string) list"
  expiry :: "string \<rightharpoonup> nat"
  link :: "nat option"
  cmd_log :: "command list"

datatype error =
    Connectivity
  | DuplicateKey
  | Blocked
  | Thrown string

text \<open>\<open>ZADD\<close> of one pair: the member is added, or moved to its new score.\<close>

definition zadd1 :: "int \<times> string \<Rightarrow> (int \<times> string) list \<Rightarrow> (int \<times> string) list" where
  "zadd1 e zs = insort e (filter (\<lambda>x. snd x \<noteq> snd e) zs)"

text \<open>What a command does to the store, and its reply.\<close>

fun redis :: "command \<Rightarrow> store \<Rightarrow> (error + reply) \<times> store" where
  "redis (DEL k) s =
     (Inr ROk, s\<lparr>hashes := (hashes s)(k := []), lists := (lists s)(k := []),
                 zsets := (zsets s)(k := []), expiry := (expiry s)(k := None)\<rparr>)"
| "redis (HGET k f) s = (Inr (RField (map_of (hashes s k) f)), s)"
| "redis (HSET k f v) s = (Inr ROk, s\<lparr>hashes := (hashes s)(k := AList.update f v (hashes s k))\<rparr>)"
| "redis (HMSET k fvs) s =
     (Inr ROk, s\<lparr>hashes := (hashes s)(k := fold (\<lambda>(f, v). AList.update f v) fvs (hashes s k))\<rparr>)"
| "redis (HDEL k fs) s =
     (Inr ROk, s\<lparr>hashes := (hashes s)(k := filter (\<lambda>(f, v). f \<notin> set fs) (hashes s k))\<rparr>)"
| "redis (RPUSH k vs) s = (Inr ROk, s\<lparr>lists := (lists s)(k := lists s k @ vs)\<rparr>)"
| "redis (ZADD k es) s = (Inr ROk, s\<lparr>zsets := (zsets s)(k := fold zadd1 es (zsets s k))\<rparr>)"
| "redis (EXPIRE k n) s =
     (Inr ROk, if hashes s k = [] \<and> lists s k = [] \<and> zsets s k = [] then s
               else s\<lparr>expiry := (expiry s)(k \<mapsto> n)\<rparr>)"
| "redis (BLPOP k n) s =
     (case lists s k of
        [] \<Rightarrow> (Inl Blocked, s)
      | v # vs \<Rightarrow> (Inr (RPopped k v), s\<lparr>lists := (lists s)(k := vs)\<rparr>))"
| "redis (ZPOP k) s =
     (case zsets s k of
        [] \<Rightarrow> (Inr (RMember None), s)
      | e # es \<Rightarrow> (Inr (RMember (Some (snd e))), s\<lparr>zsets := (zsets s)(k := es)\<rparr>))"
| "redis (PUBLISH ch m) s = (Inr ROk, s)"

section \<open>The transport (src/unnamed/part_000)\<close>

text \<open>
  \<open>TransportRedis.run\<close>: sends one command; the callback's \<open>err\<close> rejects the promise.
  A broken connection rejects with \<open>Connectivity\<close> and leaves the store as it is.
\<close>

definition run :: "command \<Rightarrow> store \<Rightarrow> (error + reply) \<times> store" where
  "run cmd s =
     (if link s = Some 0 then (Inl Connectivity, s)
      else (case redis cmd (s\<lparr>link := map_option (\<lambda>n. n - 1) (link s),
                               cmd_log := cmd_log s @ [cmd]\<rparr>) of (r, s') \<Rightarrow> (r, s')))"

definition remove :: "string \<Rightarrow> store \<Rightarrow> (error + reply) \<times> store" where
  "remove k = run (DEL k)"

definition hashGet :: "string \<Rightarrow> string \<Rightarrow> store \<Rightarrow> (error + reply) \<times> store" where
  "hashGet k f = run (HGET k f)"

text \<open>\<open>hashSet(key, field, value)\<close> stores \<open>JSON.stringify(value)\<close>.\<close>

definition hashSet :: "string \<Rightarrow> string \<Rightarrow> hval \<Rightarrow> store \<Rightarrow> (error + reply) \<times> store" where
  "hashSet k f v = run (HSET k f (JSON_stringify v))"

definition hashMultiSet :: "string \<Rightarrow> (string \<times> hval) list \<Rightarrow> store \<Rightarrow> (error + reply) \<times> store" where
  "hashMultiSet k obj = run (HMSET k obj)"

definition hashUnset :: "string \<Rightarrow> string list \<Rightarrow> store \<Rightarrow> (error + reply) \<times> store" where
  "hashUnset k fs = run (HDEL k fs)"

definition push :: "string \<Rightarrow> string list \<Rightarrow> store \<Rightarrow> (error + reply) \<times> store" where
  "push k vs = run (RPUSH k vs)"

text \<open>
  \<open>sortedAdd(key, [score1, member1, score2, member2, ...])\<close>: the loop multiplies the
  entries at the even indices below \<open>length - 1\<close> by \<open>-1\<close>, that is, the score of every
  pair; the flat array is modelled as the list of its pairs.
\<close>

definition sortedAdd :: "string \<Rightarrow> (int \<times> string) list \<Rightarrow> store \<Rightarrow> (error + reply) \<times> store" where
  "sortedAdd k members = run (ZADD k (map (\<lambda>(sc, m). (-1 * sc, m)) members))"

definition expire :: "string \<Rightarrow> nat \<Rightarrow> store \<Rightarrow> (error + reply) \<times> store" where
  "expire k secs = run (EXPIRE k secs)"

definition blockPop :: "string \<Rightarrow> nat \<Rightarrow> store \<Rightarrow> (error + reply) \<times> store" where
  "blockPop k timeout = run (BLPOP k timeout)"

definition sortedPop :: "string \<Rightarrow> store \<Rightarrow> (error + reply) \<times> store" where
  "sortedPop k = run (ZPOP k)"

definition publish :: "string \<Rightarrow> envelope \<Rightarrow> store \<Rightarrow> (error + reply) \<times> store" where
  "publish ch m = run (PUBLISH ch m)"

text \<open>
  \<open>sequence(tasks, c)\<close> of when.js: runs the tasks one after the other on the same
  client, collects their results and rejects at the first rejection.
\<close>

fun sequence :: "('s \<Rightarrow> (error + 'a) \<times> 's) list \<Rightarrow> 's \<Rightarrow> (error + 'a list) \<times> 's" where
  "sequence [] s = (Inr [], s)"
| "sequence (f # fs) s =
     (case f s of
        (Inl e, s') \<Rightarrow> (Inl e, s')
      | (Inr a, s') \<Rightarrow>
          (case sequence fs s' of
             (Inl e, s'') \<Rightarrow> (Inl e, s'')
           | (Inr as, s'') \<Rightarrow> (Inr (a # as), s'')))"

section \<open>Tasks (src/lib/task.js)\<close>

text \<open>
  \<open>data\<close> is the caller's payload: only its \<open>uid\<close> key is read by the code, the rest is
  kept as text. A task has the fields \<open>id, key, type, data, metadata, uid\<close>; the id is the
  text of the number the store receives.
\<close>

record payload =
  p_uid :: "string option"
  p_body :: string

record task =
  t_id :: string
  t_key :: string
  t_type :: string
  t_data :: payload
  t_metadata :: metadata
  t_uid :: "string option"

text \<open>A priority as a caller passes it: a number or a named level.\<close>

datatype prio = PNum int | PName string

text \<open>
  The \<open>options\<close> argument of the constructor: every key of the metadata may be given.
\<close>

record options =
  o_created :: "nat option"
  o_state :: "string option"
  o_progress :: "jsnum option"
  o_broadcasts :: "string list option"
  o_attempts :: "int option"
  o_priority :: "prio option"
  o_maxAttempts :: "int option"
  o_removeAfter :: "nat option"
  o_broadcastAll :: "bool option"
  o_error :: "string option"

text \<open>
  The factory is defined outside the source files modelled here; the task code reads
  its \<open>prefix\<close> and the \<open>defaults\<close> of the procedure registered for a type, which are
  taken as given. A default priority is a number.
\<close>

record defaults =
  d_priority :: "int option"
  d_maxAttempts :: "int option"
  d_removeAfter :: "nat option"
  d_broadcastAll :: "bool option"
  d_error :: "string option"

record factory =
  prefix :: string
  procedures :: "string \<rightharpoonup> defaults"

definition no_defaults :: defaults where
  "no_defaults = \<lparr>d_priority = None, d_maxAttempts = None, d_removeAfter = None,
                  d_broadcastAll = None, d_error = None\<rparr>"

text \<open>\<open>(factory.procedures[type] || { defaults : {} }).defaults\<close>\<close>

definition defaults_of :: "factory \<Rightarrow> string \<Rightarrow> defaults" where
  "defaults_of f ty = (case procedures f ty of Some d \<Rightarrow> d | None \<Rightarrow> no_defaults)"

text \<open>\<open>privates.priorities\<close>\<close>

definition priorities :: "string \<rightharpoonup> int" where
  "priorities =
     [''low'' \<mapsto> -10, ''medium'' \<mapsto> 0, ''high'' \<mapsto> 10, ''critical'' \<mapsto> 20]"

text \<open>\<open>defaults.priority || privates.priorities['medium']\<close>: a default of 0 is falsy.\<close>

definition normal_priority :: "factory \<Rightarrow> string \<Rightarrow> int" where
  "normal_priority f ty =
     (case d_priority (defaults_of f ty) of
        Some n \<Rightarrow> (if n = 0 then the (priorities ''medium'') else n)
      | None \<Rightarrow> the (priorities ''medium''))"

text \<open>
  \<open>Task.prototype.priority\<close>. With no argument and a stored priority it is the getter
  (\<open>Number(this.metadata.priority)\<close>); otherwise it converts a named level or a number and
  stores it (the branch \<open>true == "update"\<close> is never taken). The result is the value
  returned and the task as it is afterwards. A name is a string that is neither a
  numeral nor the name of an inherited property of \<open>privates.priorities\<close> (for these the
  code stores the number read from the string, respectively \<open>NaN\<close>); a number is an
  integer that a floating-point number holds exactly.
\<close>

definition Task_priority :: "factory \<Rightarrow> prio option \<Rightarrow> task \<Rightarrow> int option \<times> task" where
  "Task_priority f p t =
     (case p of
        None \<Rightarrow> (Some (priority (t_metadata t)), t)
      | Some (PName nm) \<Rightarrow>
          (None, t\<lparr>t_metadata := (t_metadata t)\<lparr>priority :=
             (case priorities nm of Some v \<Rightarrow> v | None \<Rightarrow> normal_priority f (t_type t))\<rparr>\<rparr>)
      | Some (PNum n) \<Rightarrow> (None, t\<lparr>t_metadata := (t_metadata t)\<lparr>priority := n\<rparr>\<rparr>))"

text \<open>
  The constructor for a new task, \<open>Task(factory, id, type, data, options)\<close>, at time
  \<open>now\<close>: the initial metadata, overwritten key by key by \<open>options\<close>; the priority
  converted by \<open>this.priority(options.priority)\<close>; the procedure's defaults for the keys
  still undefined; \<open>maxAttempts || 1\<close>.
\<close>

definition or_else :: "'a option \<Rightarrow> 'a option \<Rightarrow> 'a option" where
  "or_else a b = (case a of Some x \<Rightarrow> Some x | None \<Rightarrow> b)"

definition truthy_or :: "int option \<Rightarrow> int \<Rightarrow> int" where
  "truthy_or a b = (case a of Some n \<Rightarrow> (if n = 0 then b else n) | None \<Rightarrow> b)"

definition new_Task :: "factory \<Rightarrow> nat \<Rightarrow> string \<Rightarrow> string \<Rightarrow> payload \<Rightarrow> options \<Rightarrow> task" where
  "new_Task f now ident ty dat opts =
     (let d = defaults_of f ty;
          md = \<lparr>created = (case o_created opts of Some c \<Rightarrow> c | None \<Rightarrow> now),
                state = (case o_state opts of Some st \<Rightarrow> st | None \<Rightarrow> ''waiting''),
                progress = Some (case o_progress opts of Some pr \<Rightarrow> pr | None \<Rightarrow> Num 0),
                broadcasts = (case o_broadcasts opts of Some bs \<Rightarrow> bs | None \<Rightarrow> [''remove'']),
                attempts = (case o_attempts opts of Some a \<Rightarrow> a | None \<Rightarrow> 0),
                priority = normal_priority f ty,
                maxAttempts = truthy_or (or_else (o_maxAttempts opts) (d_maxAttempts d)) 1,
                removeAfter = or_else (o_removeAfter opts) (d_removeAfter d),
                broadcastAll = or_else (o_broadcastAll opts) (d_broadcastAll d),
                error = or_else (o_error opts) (d_error d)\<rparr>;
          t = \<lparr>t_id = ident, t_key = prefix f @ ''tasks:'' @ ident, t_type = ty,
               t_data = dat, t_metadata = md, t_uid = p_uid dat\<rparr>
      in (case o_priority opts of
            None \<Rightarrow> t
          | Some p \<Rightarrow> snd (Task_priority f (Some p) t)))"

text \<open>
  The constructor for a stored task, \<open>Task(factory, record)\<close>: the fields are taken from
  the record, \<open>this.priority(undefined)\<close> is the getter, and the defaults fill the keys
  that are undefined.
\<close>

definition rehydrate :: "factory \<Rightarrow> task \<Rightarrow> task" where
  "rehydrate f r =
     (let d = defaults_of f (t_type r); md = t_metadata r
      in r\<lparr>t_metadata := md\<lparr>
            maxAttempts := (if maxAttempts md = 0 then 1 else maxAttempts md),
            removeAfter := or_else (removeAfter md) (d_removeAfter d),
            broadcastAll := or_else (broadcastAll md) (d_broadcastAll d),
            error := or_else (error md) (d_error d)\<rparr>\<rparr>)"

section \<open>The process: store, dispatcher, events and timers\<close>

text \<open>
  An announcement is a call of \<open>emit\<close> on the task (\<open>Local\<close>) or of
  \<open>Dispatcher.broadcast\<close> (\<open>Broadcast\<close>). A timer is a pending \<open>setTimeout\<close>: its delay
  in milliseconds and what it will call.
\<close>

datatype reach = Local | Broadcast

record announcement =
  a_id :: string
  a_event :: string
  a_args :: "jsval list"
  a_reach :: reach

datatype timer_call = AnnounceRemove string | IgnoreTask string

text \<open>
  The dispatcher of the process (src/examples/race.js, second part): the idle workers
  waiting per type (a team is a worker pool; its name is its type), the watched tasks,
  and for each type whether a call of \<open>getNextJob\<close> is outstanding: waiting in its
  blocking pop, or scheduled by \<open>process.nextTick\<close>. \<open>delegated\<close> lists the calls
  \<open>team.delegate(id)\<close> made so far: type, team and id (\<open>None\<close> when the sorted set was
  empty and the id is undefined).
\<close>

record team =
  team_name :: string
  team_ref :: nat

record dispatcher =
  waitlist :: "string \<Rightarrow> team list"
  tasks :: "string \<rightharpoonup> task"
  subscribed :: bool
  pending :: "string \<Rightarrow> bool"
  delegated :: "(string \<times> team \<times> string option) list"

record world =
  w_store :: store
  w_disp :: dispatcher
  announced :: "announcement list"
  timers :: "(nat \<times> timer_call) list"
  console :: "error list"

text \<open>\<open>factory.execute(client, fn)\<close>: runs \<open>fn\<close> on a connection to the store.\<close>

definition execute :: "(store \<Rightarrow> (error + 'a) \<times> store) \<Rightarrow> world \<Rightarrow> (error + 'a) \<times> world" where
  "execute fn w = (case fn (w_store w) of (r, s') \<Rightarrow> (r, w\<lparr>w_store := s'\<rparr>))"

text \<open>
  \<open>Dispatcher.prototype.broadcast\<close>: nothing for an empty event; otherwise publishes the
  envelope on the events channel, and logs a rejection before passing it on.
\<close>

definition eventsKey :: "factory \<Rightarrow> string" where
  "eventsKey f = prefix f @ ''events''"

definition Dispatcher_broadcast ::
  "factory \<Rightarrow> string \<Rightarrow> string \<Rightarrow> jsval list \<Rightarrow> world \<Rightarrow> (error + reply) \<times> world" where
  "Dispatcher_broadcast f event ident args w =
     (if event = [] then (Inr ROk, w)
      else (case execute (publish (eventsKey f)
                            \<lparr>env_id = ident, env_event = event, env_args = JSON_arguments args\<rparr>)
                   (w\<lparr>announced := announced w @
                        [\<lparr>a_id = ident, a_event = event, a_args = args, a_reach = Broadcast\<rparr>]\<rparr>) of
              (Inl e, w') \<Rightarrow> (Inl e, w'\<lparr>console := console w' @ [e]\<rparr>)
            | (Inr r, w') \<Rightarrow> (Inr r, w')))"

text \<open>\<open>Task.prototype.broadcasts\<close>, \<open>broadcast\<close> and \<open>announce\<close>.\<close>

definition Task_broadcasts :: "task \<Rightarrow> string \<Rightarrow> bool" where
  "Task_broadcasts t event = (event \<in> set (broadcasts (t_metadata t)))"

definition Task_broadcast :: "factory \<Rightarrow> task \<Rightarrow> string \<Rightarrow> jsval list \<Rightarrow> world \<Rightarrow> (error + reply) \<times> world" where
  "Task_broadcast f t event args w = Dispatcher_broadcast f event (t_id t) (VStr event # args) w"

definition Task_emit :: "task \<Rightarrow> string \<Rightarrow> jsval list \<Rightarrow> world \<Rightarrow> world" where
  "Task_emit t event args w =
     w\<lparr>announced := announced w @
         [\<lparr>a_id = t_id t, a_event = event, a_args = args, a_reach = Local\<rparr>]\<rparr>"

definition Task_announce :: "factory \<Rightarrow> task \<Rightarrow> string \<Rightarrow> jsval list \<Rightarrow> world \<Rightarrow> world" where
  "Task_announce f t event args w =
     (if broadcastAll (t_metadata t) = Some True \<or> Task_broadcasts t event
      then snd (Task_broadcast f t event args w)
      else Task_emit t event args w)"

section \<open>\<open>parseFloat\<close>\<close>

text \<open>
  \<open>parseFloat\<close> converts its argument to a string, skips leading white space (of which
  the ASCII characters are modelled, a string being a list of bytes) and reads
  the longest prefix that is a decimal literal (sign, \<open>Infinity\<close>, digits, fraction,
  exponent); it is \<open>NaN\<close> when there is no such prefix.
\<close>

definition is_ws :: "char \<Rightarrow> bool" where
  "is_ws c = (c \<in> set [CHR '' '', CHR 0x09, CHR 0x0A, CHR 0x0B, CHR 0x0C, CHR 0x0D])"

definition is_digit :: "char \<Rightarrow> bool" where
  "is_digit c = (CHR ''0'' \<le> c \<and> c \<le> CHR ''9'')"

definition digits_val :: "string \<Rightarrow> nat" where
  "digits_val ds = foldl (\<lambda>acc c. 10 * acc + (of_char c - 48)) 0 ds"

definition read_exponent :: "string \<Rightarrow> int" where
  "read_exponent r =
     (case r of
        c # r1 \<Rightarrow>
          (if c = CHR ''e'' \<or> c = CHR ''E'' then
             (let neg = (case r1 of d # _ \<Rightarrow> d = CHR ''-'' | [] \<Rightarrow> False);
                  r2 = (case r1 of d # r' \<Rightarrow> (if d = CHR ''-'' \<or> d = CHR ''+'' then r' else r1)
                                 | [] \<Rightarrow> []);
                  ds = takeWhile is_digit r2
              in if neg then - int (digits_val ds) else int (digits_val ds))
           else 0)
      | [] \<Rightarrow> 0)"

definition scale10 :: "rat \<Rightarrow> int \<Rightarrow> rat" where
  "scale10 x e = (if e < 0 then x / 10 ^ nat (- e) else x * 10 ^ nat e)"

definition parseFloat_string :: "string \<Rightarrow> jsnum" where
  "parseFloat_string str =
     (let s1 = dropWhile is_ws str;
          neg = (case s1 of c # _ \<Rightarrow> c = CHR ''-'' | [] \<Rightarrow> False);
          s2 = (case s1 of c # r \<Rightarrow> (if c = CHR ''-'' \<or> c = CHR ''+'' then r else s1) | [] \<Rightarrow> []);
          ip = takeWhile is_digit s2;
          r1 = dropWhile is_digit s2;
          fp = (case r1 of c # r \<Rightarrow> (if c = CHR ''.'' then takeWhile is_digit r else []) | [] \<Rightarrow> []);
          r2 = (case r1 of c # r \<Rightarrow> (if c = CHR ''.'' then dropWhile is_digit r else r1) | [] \<Rightarrow> []);
          m = of_nat (digits_val ip) + of_nat (digits_val fp) / 10 ^ length fp;
          v = scale10 m (read_exponent r2)
      in if take 8 s2 = ''Infinity'' then (if neg then NegInf else PosInf)
         else if ip = [] \<and> fp = [] then NaN
         else Num (if neg then - v else v))"

fun parseFloat :: "jsval \<Rightarrow> jsnum" where
  "parseFloat (VNum n) = n"
| "parseFloat (VStr s) = parseFloat_string s"
| "parseFloat (VFun body) = parseFloat_string (''function'' @ body)"
| "parseFloat VUndefined = parseFloat_string ''undefined''"
| "parseFloat VNull = parseFloat_string ''null''"
| "parseFloat (VBool b) = parseFloat_string (if b then ''true'' else ''false'')"
| "parseFloat (VObj fs) = parseFloat_string ''[object Object]''"
| "parseFloat (VArr []) = parseFloat_string []"
| "parseFloat (VArr (x # xs)) = parseFloat x"

section \<open>Storage and queueing\<close>

definition typeKey :: "factory \<Rightarrow> string \<Rightarrow> string" where
  "typeKey f ty = prefix f @ ''tasks:'' @ ty"

definition waitKey :: "factory \<Rightarrow> string \<Rightarrow> string" where
  "waitKey f ty = typeKey f ty @ '':waiting''"

definition uidKey :: "factory \<Rightarrow> string \<Rightarrow> string" where
  "uidKey f ty = prefix f @ ty @ '':uids''"

text \<open>\<open>Task.prototype.serialize\<close>: the fields of the hash record.\<close>

definition serialize :: "task \<Rightarrow> (string \<times> hval) list" where
  "serialize t =
     [(''id'', HText (t_id t)), (''key'', HText (t_key t)), (''type'', HText (t_type t)),
      (''data'', HText (p_body (t_data t))),
      (''metadata'', JSON_stringify (HMeta (t_metadata t)))]
     @ (case t_uid t of Some u \<Rightarrow> [(''uid'', HText u)] | None \<Rightarrow> [])"

text \<open>
  Modelled from the spec: \<open>factory.lacksTask(type, uid, client)\<close>, which \<open>save\<close> calls
  first, belongs to the factory, which is not among the source files. The spec has \<open>save\<close>
  validate that the uid is unique for the type and reject with a duplicate-key error if
  it is taken; the uid is taken when the hash \<open><prefix><type>:uids\<close> maps it to an id.
\<close>

definition lacksTask :: "factory \<Rightarrow> string \<Rightarrow> string \<Rightarrow> store \<Rightarrow> (error + reply) \<times> store" where
  "lacksTask f ty u c =
     (case hashGet (uidKey f ty) u c of
        (Inl e, c') \<Rightarrow> (Inl e, c')
      | (Inr (RField (Some v)), c') \<Rightarrow> (Inl DuplicateKey, c')
      | (Inr r, c') \<Rightarrow> (Inr ROk, c'))"

text \<open>\<open>when.resolve()\<close>\<close>

definition resolve :: "'s \<Rightarrow> (error + reply) \<times> 's" where
  "resolve c = (Inr ROk, c)"

text \<open>\<open>privates.uidFunctions\<close>: the pair \<open>(check, update)\<close>.\<close>

definition uidFunctions ::
  "factory \<Rightarrow> task \<Rightarrow> (store \<Rightarrow> (error + reply) \<times> store) \<times> (store \<Rightarrow> (error + reply) \<times> store)" where
  "uidFunctions f t =
     (case t_uid t of
        Some u \<Rightarrow> (lacksTask f (t_type t) u, hashSet (uidKey f (t_type t)) u (HText (t_id t)))
      | None \<Rightarrow> (resolve, resolve))"

text \<open>The promise of a \<open>sequence\<close> resolves to the list of the results.\<close>

definition as_reply :: "(error + reply list) \<times> 's \<Rightarrow> (error + reply) \<times> 's" where
  "as_reply x = (case x of (Inl e, s) \<Rightarrow> (Inl e, s) | (Inr rs, s) \<Rightarrow> (Inr (RList rs), s))"

text \<open>\<open>Task.prototype.deactivate\<close> resolves at once (the rest is commented out).\<close>

definition Task_deactivate :: "store \<Rightarrow> (error + reply) \<times> store" where
  "Task_deactivate = resolve"

text \<open>\<open>Task.prototype.queue(client)\<close>\<close>

definition Task_queue :: "factory \<Rightarrow> task \<Rightarrow> store \<Rightarrow> (error + reply) \<times> store" where
  "Task_queue f t c =
     (let prio = the (fst (Task_priority f None t));
          queueTask = sortedAdd (waitKey f (t_type t)) [(prio, t_id t)];
          pushTask = push (typeKey f (t_type t)) [t_id t]
      in as_reply (sequence [Task_deactivate, queueTask, pushTask] c))"

text \<open>
  \<open>Task.prototype.save\<close>. A method of a task gives the result of its promise, the task
  and the process as they are afterwards.
\<close>

definition Task_save :: "factory \<Rightarrow> task \<Rightarrow> world \<Rightarrow> (error + reply) \<times> task \<times> world" where
  "Task_save f t w =
     (let uidFxns = uidFunctions f t;
          storeTask = hashMultiSet (t_key t) (serialize t);
          seq = [fst uidFxns, storeTask, Task_queue f t, snd uidFxns]
      in (case execute (\<lambda>c. as_reply (sequence seq c)) w of (r, w') \<Rightarrow> (r, t, w')))"

text \<open>\<open>Task.prototype.remove\<close>\<close>

definition Task_remove :: "factory \<Rightarrow> task \<Rightarrow> world \<Rightarrow> (error + reply) \<times> task \<times> world" where
  "Task_remove f t w =
     (case execute (remove (t_key t)) (Task_announce f t ''remove'' [] w) of
        (r, w') \<Rightarrow> (r, t, w'))"

section \<open>Metadata manipulation and end states\<close>

text \<open>
  \<open>Task.prototype.info\<close>: the getter returns the metadata; the setter copies the keys of
  \<open>changes\<close> into the metadata and writes the metadata field of the hash record. The
  object \<open>changes\<close> is given as the record update it stands for.
\<close>

definition Task_info ::
  "factory \<Rightarrow> (metadata \<Rightarrow> metadata) option \<Rightarrow> task \<Rightarrow> world \<Rightarrow> (error + reply) \<times> task \<times> world" where
  "Task_info f changes t w =
     (case changes of
        None \<Rightarrow> (Inr (RMeta (t_metadata t)), t, w)
      | Some ch \<Rightarrow>
          (let t' = t\<lparr>t_metadata := ch (t_metadata t)\<rparr>
           in (case execute (hashSet (t_key t') ''metadata'' (HMeta (t_metadata t'))) w of
                 (r, w') \<Rightarrow> (r, t', w'))))"

definition Task_activate :: "factory \<Rightarrow> task \<Rightarrow> world \<Rightarrow> (error + reply) \<times> task \<times> world" where
  "Task_activate f t w =
     (let n = attempts (t_metadata t) + 1
      in Task_info f (Some (\<lambda>m. m\<lparr>state := ''active'', attempts := n\<rparr>)) t w)"

definition Task_waitlist :: "factory \<Rightarrow> task \<Rightarrow> world \<Rightarrow> (error + reply) \<times> task \<times> world" where
  "Task_waitlist f t w =
     Task_info f (Some (\<lambda>m. m\<lparr>state := ''waiting'', progress := Some (Num 0)\<rparr>)) t w"

text \<open>
  \<open>privates.expireFunction\<close>: with \<open>removeAfter\<close> it sets the timer that announces
  \<open>remove\<close> and returns the function that sets the time to live of the record.
\<close>

definition expireFunction ::
  "factory \<Rightarrow> task \<Rightarrow> world \<Rightarrow> (store \<Rightarrow> (error + reply) \<times> store) \<times> world" where
  "expireFunction f t w =
     (case removeAfter (t_metadata t) of
        None \<Rightarrow> (resolve, w)
      | Some expires \<Rightarrow>
          (expire (t_key t) expires,
           w\<lparr>timers := timers w @ [(1000 * expires, AnnounceRemove (t_id t))]\<rparr>))"

text \<open>
  \<open>Task.prototype.finalize(state, progress, err, client)\<close>; \<open>progress\<close> is \<open>None\<close> for
  \<open>null\<close>, and \<open>err\<close> is truthy when it is a string that is not empty. Without a uid the
  field name sent to the store is the text of \<open>undefined\<close>.
\<close>

definition Task_finalize ::
  "factory \<Rightarrow> string \<Rightarrow> jsnum option \<Rightarrow> string option \<Rightarrow> task \<Rightarrow> world
     \<Rightarrow> (error + reply) \<times> task \<times> world" where
  "Task_finalize f st pr err t w =
     (let md = (t_metadata t)\<lparr>progress := pr, state := st\<rparr>;
          md' = (case err of
                   Some e \<Rightarrow> (if e = [] then md else md\<lparr>error := Some e\<rparr>)
                 | None \<Rightarrow> md);
          t' = t\<lparr>t_metadata := md'\<rparr>;
          (expireFxn, w1) = expireFunction f t' w;
          hset = hashSet (t_key t') ''metadata'' (HMeta md');
          hunset = hashUnset (uidKey f (t_type t'))
                     [case t_uid t' of Some u \<Rightarrow> u | None \<Rightarrow> ''undefined'']
      in (case execute (\<lambda>c. as_reply (sequence [hset, hunset, expireFxn] c)) w1 of
            (r, w') \<Rightarrow> (r, t', w')))"

text \<open>
  \<open>this.progress\<close>, as the getter reads it, is the method itself: a function.
\<close>

definition progress_method :: jsval where
  "progress_method = VFun '' (num, den) { [body] }''"

text \<open>
  \<open>Task.prototype.progress(num, den)\<close>; the arguments are numbers, \<open>None\<close> is
  \<open>undefined\<close>. \<open>100 * num / den\<close> is computed by the runtime.
\<close>

definition Task_progress ::
  "factory \<Rightarrow> runtime \<Rightarrow> jsnum option \<Rightarrow> jsnum option \<Rightarrow> task \<Rightarrow> world
     \<Rightarrow> (error + reply) \<times> task \<times> world" where
  "Task_progress f rt num den t w =
     (case num of
        None \<Rightarrow> (Inr (RNum (parseFloat progress_method)), t, w)
      | Some n \<Rightarrow>
          (let p = (case den of
                      None \<Rightarrow> Math_min n (Num 100)
                    | Some d \<Rightarrow> Math_min (divide rt (times rt (Num 100) n) d) (Num 100));
               w1 = Task_announce f t ''progress'' [VNum p] w
           in if p = Num 100 then Task_finalize f ''success'' (Some (Num 100)) None t w1
              else Task_info f (Some (\<lambda>m. m\<lparr>progress := Some p\<rparr>)) t w1))"


text \<open>
  The argument of \<open>failure\<close>: \<open>undefined\<close>, \<open>null\<close>, or a value given by the text its
  \<open>toString()\<close> returns.
\<close>

datatype failure_arg = ErrUndefined | ErrNull | ErrValue string

text \<open>
  \<open>Task.prototype.failure(err)\<close>. With no attempt left the message is computed first:
  \<open>err.toString()\<close> unless \<open>err\<close> is \<open>undefined\<close>; on \<open>null\<close> this throws a type error
  before anything is announced.
\<close>

definition Task_failure ::
  "factory \<Rightarrow> failure_arg \<Rightarrow> task \<Rightarrow> world \<Rightarrow> (error + reply) \<times> task \<times> world" where
  "Task_failure f err t w =
     (if attempts (t_metadata t) < maxAttempts (t_metadata t) then
        (let w1 = Task_announce f t ''retry'' [] w
         in (case execute (Task_queue f t) w1 of (r, w2) \<Rightarrow> (r, t, w2)))
      else
        (case err of
           ErrNull \<Rightarrow> (Inl (Thrown ''TypeError''), t, w)
         | _ \<Rightarrow>
            (let errMsg = (case err of ErrValue e \<Rightarrow> e | _ \<Rightarrow> ''Unknown error'');
                 w1 = Task_announce f t ''failure'' [] w
             in (case execute Task_deactivate w1 of
                   (Inl e, w2) \<Rightarrow> (Inl e, t, w2)
                 | (Inr _, w2) \<Rightarrow> Task_finalize f ''failure'' None (Some errMsg) t w2))))"

section \<open>The dispatcher (src/examples/race.js, second part)\<close>

text \<open>
  \<open>Dispatcher.prototype.getNextJob(type)\<close>, one call. The blocking pop on the notify list
  comes first, then the pop of the sorted set, whose result is the id. A blocking pop on
  an empty list does not return: the call stays outstanding (\<open>Inl Blocked\<close>) and is taken
  up again by \<open>resume\<close>. With an idle worker the id is handed to the first one, and if
  more are waiting the next call is scheduled.
\<close>

definition runTask :: "string \<Rightarrow> reply list \<Rightarrow> dispatcher \<Rightarrow> dispatcher" where
  "runTask ty res d =
     (let ident = (case res of [_, RMember m] \<Rightarrow> m | _ \<Rightarrow> None)
      in (case waitlist d ty of
            [] \<Rightarrow> d
          | tm # rest \<Rightarrow>
              d\<lparr>waitlist := (waitlist d)(ty := rest),
                delegated := delegated d @ [(ty, tm, ident)],
                pending := (pending d)(ty := (rest \<noteq> []))\<rparr>))"

definition Dispatcher_getNextJob :: "factory \<Rightarrow> string \<Rightarrow> world \<Rightarrow> (error + reply) \<times> world" where
  "Dispatcher_getNextJob f ty w =
     (let masterKey = prefix f @ ''tasks:'' @ ty;
          waitKey = prefix f @ ''tasks:'' @ ty @ '':waiting'';
          getTask = sequence [blockPop masterKey 0, sortedPop waitKey];
          w0 = w\<lparr>w_disp := (w_disp w)\<lparr>pending := (pending (w_disp w))(ty := False)\<rparr>\<rparr>
      in (case execute getTask w0 of
            (Inl Blocked, w1) \<Rightarrow>
              (Inl Blocked, w1\<lparr>w_disp := (w_disp w1)\<lparr>pending := (pending (w_disp w1))(ty := True)\<rparr>\<rparr>)
          | (Inl e, w1) \<Rightarrow> (Inl e, w1)
          | (Inr res, w1) \<Rightarrow> (Inr ROk, w1\<lparr>w_disp := runTask ty res (w_disp w1)\<rparr>)))"

text \<open>\<open>privates.delegate(team)\<close>: an idle worker of the team asks for work.\<close>

definition Dispatcher_delegate :: "factory \<Rightarrow> team \<Rightarrow> world \<Rightarrow> world" where
  "Dispatcher_delegate f tm w =
     (let ty = team_name tm; d = w_disp w;
          w1 = w\<lparr>w_disp := d\<lparr>waitlist := (waitlist d)(ty := waitlist d ty @ [tm])\<rparr>\<rparr>
      in if waitlist d ty \<noteq> [] then w1 else snd (Dispatcher_getNextJob f ty w1))"

text \<open>
  The outstanding call of \<open>getNextJob\<close> for a type goes on: the blocking pop is tried
  again, or the call scheduled by \<open>process.nextTick\<close> runs.
\<close>

definition resume :: "factory \<Rightarrow> string \<Rightarrow> world \<Rightarrow> world" where
  "resume f ty w = (if pending (w_disp w) ty then snd (Dispatcher_getNextJob f ty w) else w)"

text \<open>
  \<open>subscribe\<close>, \<open>watchTask\<close> and \<open>privates.ignoreTask\<close>. An id is falsy when it is the
  number 0 or empty.
\<close>

definition Dispatcher_subscribe :: "dispatcher \<Rightarrow> dispatcher" where
  "Dispatcher_subscribe d = (if subscribed d then d else d\<lparr>subscribed := True\<rparr>)"

definition Dispatcher_watchTask :: "task \<Rightarrow> dispatcher \<Rightarrow> dispatcher" where
  "Dispatcher_watchTask t d =
     (let d1 = (if t_id t \<noteq> [] \<and> t_id t \<noteq> ''0'' then d\<lparr>tasks := (tasks d)(t_id t \<mapsto> t)\<rparr>
                else d)
      in if \<not> subscribed d1 then Dispatcher_subscribe d1 else d1)"

definition ignoreTask :: "string \<Rightarrow> dispatcher \<Rightarrow> dispatcher" where
  "ignoreTask ident d =
     (case tasks d ident of Some t \<Rightarrow> d\<lparr>tasks := (tasks d)(ident := None)\<rparr> | None \<Rightarrow> d)"

text \<open>
  \<open>value.name\<close>: a type error on \<open>null\<close> and \<open>undefined\<close>, the field of an object (the
  last one of that name), \<open>undefined\<close> otherwise.
\<close>

fun js_get :: "jsval \<Rightarrow> string \<Rightarrow> error + jsval" where
  "js_get VNull nm = Inl (Thrown ''TypeError'')"
| "js_get VUndefined nm = Inl (Thrown ''TypeError'')"
| "js_get (VObj fs) nm = Inr (case map_of (rev fs) nm of Some v \<Rightarrow> v | None \<Rightarrow> VUndefined)"
| "js_get v nm = Inr VUndefined"

text \<open>The property name a value stands for in \<open>this.tasks[value]\<close>.\<close>

fun join_commas :: "string list \<Rightarrow> string" where
  "join_commas [] = []"
| "join_commas [x] = x"
| "join_commas (x # xs) = x @ '','' @ join_commas xs"

fun prop_key :: "runtime \<Rightarrow> jsval \<Rightarrow> string" where
  "prop_key rt (VStr s) = s"
| "prop_key rt (VNum n) = Number_toString rt n"
| "prop_key rt (VBool b) = (if b then ''true'' else ''false'')"
| "prop_key rt (VFun body) = ''function'' @ body"
| "prop_key rt VUndefined = ''undefined''"
| "prop_key rt VNull = ''null''"
| "prop_key rt (VObj fs) = ''[object Object]''"
| "prop_key rt (VArr xs) =
     join_commas (map (\<lambda>x. if x = VNull \<or> x = VUndefined then [] else prop_key rt x) xs)"

text \<open>\<open>_.values(x)\<close>: the values of an object or array, nothing for anything else.\<close>

fun lodash_values :: "jsval \<Rightarrow> jsval list" where
  "lodash_values (VObj fs) = map snd fs"
| "lodash_values (VArr xs) = xs"
| "lodash_values v = []"

text \<open>
  \<open>literal == value\<close> for a string literal that is not the text of a number: a string
  is compared as it is, an array, object or function through its text, and a number, a
  boolean, \<open>null\<close> and \<open>undefined\<close> are never equal to it.
\<close>

fun loose_eq :: "runtime \<Rightarrow> string \<Rightarrow> jsval \<Rightarrow> bool" where
  "loose_eq rt lit (VStr s) = (lit = s)"
| "loose_eq rt lit (VArr xs) = (lit = prop_key rt (VArr xs))"
| "loose_eq rt lit (VObj fs) = (lit = prop_key rt (VObj fs))"
| "loose_eq rt lit (VFun body) = (lit = prop_key rt (VFun body))"
| "loose_eq rt lit v = False"

text \<open>
  \<open>task.emit.apply(task, args)\<close> in the router: the first argument is the event, the
  rest its arguments; a listener may throw.
\<close>

definition emit_apply :: "runtime \<Rightarrow> task \<Rightarrow> jsval list \<Rightarrow> world \<Rightarrow> error + world" where
  "emit_apply rt t args w =
     (if listener_throws rt (t_id t) args then Inl (Thrown ''listener'')
      else Inr (w\<lparr>announced := announced w @
                  [\<lparr>a_id = t_id t,
                    a_event = (case args of [] \<Rightarrow> ''undefined'' | e # _ \<Rightarrow> prop_key rt e),
                    a_args = tl args, a_reach = Local\<rparr>]\<rparr>))"

text \<open>
  The body of the \<open>try\<close> block of \<open>privates.routeMessage\<close>: \<open>Inl\<close> is the exception it
  throws. \<open>this.tasks\<close> is a plain object: for the name of an inherited property that is
  no watched id the lookup gives a value that is no task, and \<open>task.emit.apply\<close> throws
  a type error.
\<close>

definition routeMessage_try :: "runtime \<Rightarrow> string \<Rightarrow> string \<Rightarrow> world \<Rightarrow> error + world" where
  "routeMessage_try rt channel raw w =
     (case JSON_parse rt raw of
        None \<Rightarrow> Inl (Thrown ''SyntaxError'')
      | Some message \<Rightarrow>
          (case js_get message ''id'' of
             Inl e \<Rightarrow> Inl e
           | Inr ident \<Rightarrow>
               (case tasks (w_disp w) (prop_key rt ident) of
                  None \<Rightarrow>
                    (if inherited rt (prop_key rt ident) then Inl (Thrown ''TypeError'') else Inr w)
                | Some t \<Rightarrow>
                    (case js_get message ''args'' of
                       Inl e \<Rightarrow> Inl e
                     | Inr args \<Rightarrow>
                         (case emit_apply rt t (lodash_values args) w of
                            Inl e \<Rightarrow> Inl e
                          | Inr w1 \<Rightarrow>
                              (case js_get message ''event'' of
                                 Inl e \<Rightarrow> Inl e
                               | Inr event \<Rightarrow>
                                   (if loose_eq rt ''remove'' event
                                    then Inr (w1\<lparr>w_disp := ignoreTask (prop_key rt ident) (w_disp w1)\<rparr>)
                                    else (case removeAfter (t_metadata t) of
                                            None \<Rightarrow> Inr w1
                                          | Some secs \<Rightarrow>
                                              (if event \<in> set [VStr ''success'', VStr ''failure'']
                                               then Inr (w1\<lparr>timers := timers w1 @
                                                          [(secs * 1000, IgnoreTask (prop_key rt ident))]\<rparr>)
                                               else Inr w1)))))))))"

text \<open>
  \<open>privates.routeMessage(channel, message)\<close>: the \<open>catch\<close> logs the exception. \<open>Inl\<close> is
  an exception that reaches the caller.
\<close>

definition routeMessage :: "runtime \<Rightarrow> string \<Rightarrow> string \<Rightarrow> world \<Rightarrow> error + world" where
  "routeMessage rt channel raw w =
     (case routeMessage_try rt channel raw w of
        Inl err \<Rightarrow> Inr (w\<lparr>console := console w @ [err]\<rparr>)
      | Inr w' \<Rightarrow> Inr w')"

text \<open>
  The subscriber calls the router once for every message, in the order they arrive; an
  exception that left the router would end the run.
\<close>

fun routeMessages :: "runtime \<Rightarrow> string \<Rightarrow> string list \<Rightarrow> world \<Rightarrow> error + world" where
  "routeMessages rt channel [] w = Inr w"
| "routeMessages rt channel (raw # rest) w =
     (case routeMessage rt channel raw w of
        Inl e \<Rightarrow> Inl e
      | Inr w' \<Rightarrow> routeMessages rt channel rest w')"

section \<open>Runs of a process\<close>

text \<open>
  What happens in a process, one event at a time: a task is saved, an idle worker of a
  team asks for work, or the outstanding call of \<open>getNextJob\<close> for a type goes on.
\<close>

datatype event = Save task | Delegate team | Resume string

fun step :: "factory \<Rightarrow> event \<Rightarrow> world \<Rightarrow> world" where
  "step f (Save t) w = snd (snd (Task_save f t w))"
| "step f (Delegate tm) w = Dispatcher_delegate f tm w"
| "step f (Resume ty) w = resume f ty w"

text \<open>The commands the store executed, and the ids handed to workers, between two states.\<close>

definition issued :: "world \<Rightarrow> world \<Rightarrow> command list" where
  "issued w w' = drop (length (cmd_log (w_store w))) (cmd_log (w_store w'))"

definition deliveries :: "world \<Rightarrow> world \<Rightarrow> (string \<times> team \<times> string option) list" where
  "deliveries w w' = drop (length (delegated (w_disp w))) (delegated (w_disp w'))"

text \<open>
  A task is waiting when the sorted set of its type holds its id under its negated
  priority. The store keeps a sorted set in order, each member once.
\<close>

definition waiting :: "factory \<Rightarrow> task \<Rightarrow> world \<Rightarrow> bool" where
  "waiting f t w =
     ((- priority (t_metadata t), t_id t) \<in> set (zsets (w_store w) (waitKey f (t_type t))))"

definition wf_zset :: "(int \<times> string) list \<Rightarrow> bool" where
  "wf_zset zs = (sorted zs \<and> distinct (map snd zs))"

text \<open>
  A call of \<open>getNextJob\<close> is outstanding only while a worker is waiting: \<open>delegate\<close>
  starts it after adding the worker, and a call schedules the next one only if workers
  are left.
\<close>

definition loop_inv :: "dispatcher \<Rightarrow> bool" where
  "loop_inv d = (\<forall>ty. pending d ty \<longrightarrow> waitlist d ty \<noteq> [])"

section \<open>A process at its start, and sample tasks\<close>

definition empty_store :: store where
  "empty_store = \<lparr>hashes = (\<lambda>k. []), lists = (\<lambda>k. []), zsets = (\<lambda>k. []),
                  expiry = Map.empty, link = None, cmd_log = []\<rparr>"

text \<open>\<open>new Dispatcher(factory)\<close>\<close>

definition new_Dispatcher :: dispatcher where
  "new_Dispatcher = \<lparr>waitlist = (\<lambda>ty. []), tasks = Map.empty, subscribed = False,
                     pending = (\<lambda>ty. False), delegated = []\<rparr>"

definition start :: world where
  "start = \<lparr>w_store = empty_store, w_disp = new_Dispatcher, announced = [], timers = [],
            console = []\<rparr>"

definition no_options :: options where
  "no_options = \<lparr>o_created = None, o_state = None, o_progress = None, o_broadcasts = None,
                 o_attempts = None, o_priority = None, o_maxAttempts = None,
                 o_removeAfter = None, o_broadcastAll = None, o_error = None\<rparr>"

definition queue_factory :: factory where
  "queue_factory = \<lparr>prefix = ''q:'', procedures = Map.empty\<rparr>"

definition email_task :: "string \<Rightarrow> options \<Rightarrow> task" where
  "email_task ident opts =
     new_Task queue_factory 0 ident ''email'' \<lparr>p_uid = None, p_body = ''{}''\<rparr> opts"

text \<open>
  A runtime for the sample runs. They call \<open>progress\<close> with one argument, so no product
  or quotient is formed, and they route no message: none of the fields is consulted in
  them. The product and quotient given here are the exact ones of finite numbers.
\<close>

definition sample_runtime :: runtime where
  "sample_runtime =
     \<lparr>times = (\<lambda>a b. case (a, b) of (Num x, Num y) \<Rightarrow> Num (x * y) | _ \<Rightarrow> NaN),
      divide = (\<lambda>a b. case (a, b) of
                  (Num x, Num y) \<Rightarrow> if y = 0 then NaN else Num (x / y) | _ \<Rightarrow> NaN),
      JSON_parse = (\<lambda>raw. None),
      Number_toString = (\<lambda>n. ''NaN''),
      inherited = (\<lambda>name. False),
      listener_throws = (\<lambda>ident args. False)\<rparr>"

definition email_team :: team where
  "email_team = \<lparr>team_name = ''email'', team_ref = 0\<rparr>"

section \<open>Order of commands\<close>

text \<open>
  \<open>occurs_first z p cs\<close>: reading the commands \<open>cs\<close> from the oldest, \<open>z\<close> is met before
  any \<open>p\<close> (or neither occurs).
\<close>

fun occurs_first :: "command \<Rightarrow> command \<Rightarrow> command list \<Rightarrow> bool" where
  "occurs_first z p [] = True"
| "occurs_first z p (c # cs) =
     (if c = z then True else if c = p then False else occurs_first z p cs)"

section \<open>Notions used in the statements and proofs\<close>

text \<open>
  The metadata \<open>finalize(state, progress, err)\<close> leaves in the task: \<open>error\<close> is set only
  for a truthy \<open>err\<close>.
\<close>

definition final_metadata :: "string \<Rightarrow> jsnum option \<Rightarrow> string option \<Rightarrow> metadata \<Rightarrow> metadata" where
  "final_metadata st pr err md =
     (case err of
        Some e \<Rightarrow> (if e = [] then md\<lparr>progress := pr, state := st\<rparr>
                   else md\<lparr>progress := pr, state := st, error := Some e\<rparr>)
      | None \<Rightarrow> md\<lparr>progress := pr, state := st\<rparr>)"

text \<open>A sample task after a worker has taken it: \<open>activate\<close> has run once.\<close>

definition active_task :: "options \<Rightarrow> task" where
  "active_task opts = fst (snd (Task_activate queue_factory (email_task ''1'' opts) start))"



text \<open>An operation only adds commands to the log, and each of them satisfies \<open>P\<close>.\<close>

definition logs_only :: "(command \<Rightarrow> bool) \<Rightarrow> (store \<Rightarrow> (error + 'a) \<times> store) \<Rightarrow> bool" where
  "logs_only P g = (\<forall>s. \<exists>cs. cmd_log (snd (g s)) = cmd_log s @ cs \<and> (\<forall>c \<in> set cs. P c))"

text \<open>The progress in the metadata field of the hash record at a key, if there is one.\<close>

definition persisted_progress :: "world \<Rightarrow> string \<Rightarrow> jsnum option" where
  "persisted_progress w k =
     (case map_of (hashes (w_store w) k) ''metadata'' of
        Some (HMeta m) \<Rightarrow> progress m
      | _ \<Rightarrow> None)"

text \<open>A sample task with the uid \<open>Hello1\<close> in its data.\<close>

definition uid_task :: "string \<Rightarrow> task" where
  "uid_task ident =
     new_Task queue_factory 0 ident ''email'' \<lparr>p_uid = Some ''Hello1'', p_body = ''{}''\<rparr> no_options"

section \<open>Order of deliveries\<close>

text \<open>
  \<open>delivered_first ty a b ds\<close>: reading the deliveries \<open>ds\<close> from the oldest, the id \<open>a\<close>
  is handed to a worker of type \<open>ty\<close> before the id \<open>b\<close> is (or neither is).
\<close>

fun delivered_first ::
  "string \<Rightarrow> string \<Rightarrow> string \<Rightarrow> (string \<times> team \<times> string option) list \<Rightarrow> bool" where
  "delivered_first ty a b [] = True"
| "delivered_first ty a b (d # ds) =
     (if fst d = ty \<and> snd (snd d) = Some a then True
      else if fst d = ty \<and> snd (snd d) = Some b then False
      else delivered_first ty a b ds)"

text \<open>
  What holds along a run that starts with \<open>n0\<close> deliveries made and with both ids in
  the sorted set of the type, \<open>a\<close> under the score \<open>- pa\<close> and \<open>b\<close> under a greater one:
  the sorted set is in order, a call of \<open>getNextJob\<close> is outstanding only while a worker
  waits, \<open>b\<close> has not been delivered before \<open>a\<close>, and as long as \<open>a\<close> has not been
  delivered it is still in the sorted set, below every entry of \<open>b\<close>.
\<close>

definition order_inv :: "nat \<Rightarrow> factory \<Rightarrow> string \<Rightarrow> string \<Rightarrow> int \<Rightarrow> string \<Rightarrow> world \<Rightarrow> bool" where
  "order_inv n0 f ty a pa b w =
     (let zs = zsets (w_store w) (waitKey f ty); ds = drop n0 (delegated (w_disp w))
      in sorted zs \<and> loop_inv (w_disp w) \<and> n0 \<le> length (delegated (w_disp w))
         \<and> delivered_first ty a b ds
         \<and> ((\<forall>tm. (ty, tm, Some a) \<notin> set ds) \<longrightarrow>
              (- pa, a) \<in> set zs \<and> (\<forall>s. (s, b) \<in> set zs \<longrightarrow> - pa < s)))"

text \<open>
  What holds in every state a run reaches from the start: every sorted set is in order
  with each member once, and a call of \<open>getNextJob\<close> is outstanding only while a worker
  waits.
\<close>

definition store_inv :: "world \<Rightarrow> bool" where
  "store_inv w = ((\<forall>k. wf_zset (zsets (w_store w) k)) \<and> loop_inv (w_disp w))"

text \<open>
  The scenario of the spec: task Y of type \<open>email\<close> is created with priority
  \<open>medium\<close>, task X after it with priority \<open>high\<close>; both are saved, Y first. Task Z of
  priority \<open>critical\<close> is saved later.
\<close>

definition task_Y :: task where
  "task_Y = email_task ''4'' (no_options\<lparr>o_priority := Some (PName ''medium'')\<rparr>)"

definition task_X :: task where
  "task_X = email_task ''5'' (no_options\<lparr>o_priority := Some (PName ''high'')\<rparr>)"

definition task_Z :: task where
  "task_Z = email_task ''6'' (no_options\<lparr>o_priority := Some (PName ''critical'')\<rparr>)"

definition both_saved :: world where
  "both_saved = fold (step queue_factory) [Save task_Y, Save task_X] start"

section \<open>The router does not throw\<close>

lemma routeMessage_returns: "\<exists>w'. routeMessage rt channel raw w = Inr w'"
  unfolding routeMessage_def by (cases "routeMessage_try rt channel raw w") simp_all

lemma routeMessage_syntax_error:
  "JSON_parse rt raw = None \<Longrightarrow>
   routeMessage rt channel raw w = Inr (w\<lparr>console := console w @ [Thrown ''SyntaxError'']\<rparr>)"
  by (simp add: routeMessage_def routeMessage_try_def)

lemma routeMessage_null:
  "JSON_parse rt raw = Some VNull \<Longrightarrow>
   routeMessage rt channel raw w = Inr (w\<lparr>console := console w @ [Thrown ''TypeError'']\<rparr>)"
  by (simp add: routeMessage_def routeMessage_try_def)

lemma routeMessage_unwatched:
  "JSON_parse rt raw = Some (VObj [(''id'', ident)]) \<Longrightarrow>
   tasks (w_disp w) (prop_key rt ident) = None \<Longrightarrow>
   \<not> inherited rt (prop_key rt ident) \<Longrightarrow>
   routeMessage rt channel raw w = Inr w"
  by (simp add: routeMessage_def routeMessage_try_def)

lemma routeMessage_inherited:
  "JSON_parse rt raw = Some (VObj [(''id'', ident)]) \<Longrightarrow>
   tasks (w_disp w) (prop_key rt ident) = None \<Longrightarrow>
   inherited rt (prop_key rt ident) \<Longrightarrow>
   routeMessage rt channel raw w = Inr (w\<lparr>console := console w @ [Thrown ''TypeError'']\<rparr>)"
  by (simp add: routeMessage_def routeMessage_try_def)

lemma routeMessage_listener_throws:
  "JSON_parse rt raw = Some (VObj [(''id'', ident), (''args'', args)]) \<Longrightarrow>
   tasks (w_disp w) (prop_key rt ident) = Some t \<Longrightarrow>
   listener_throws rt (t_id t) (lodash_values args) \<Longrightarrow>
   routeMessage rt channel raw w = Inr (w\<lparr>console := console w @ [Thrown ''listener'']\<rparr>)"
  by (simp add: routeMessage_def routeMessage_try_def emit_apply_def)

lemma routeMessages_returns: "\<exists>w'. routeMessages rt channel raws w = Inr w'"
proof (induction raws arbitrary: w)
  case Nil
  show ?case by simp
next
  case (Cons raw rest)
  obtain w1 where "routeMessage rt channel raw w = Inr w1"
    using routeMessage_returns by blast
  with Cons.IH [of w1] show ?case by simp
qed

text \<open>
  C9. For every incoming message, whatever \<open>JSON.parse\<close> makes of it and whether or not
  its id is that of a watched task, \<open>routeMessage\<close> returns to its caller: no exception
  leaves it. So every message of a run is routed, whatever came before it.
\<close>

theorem routeMessage_never_throws:
  "(\<exists>w'. routeMessage rt channel raw w = Inr w') \<and>
   (\<exists>w'. routeMessages rt channel raws w = Inr w')"
  using routeMessage_returns routeMessages_returns by blast

section \<open>The progress getter\<close>

lemma parseFloat_function: "parseFloat (VFun body) = NaN"
  by (simp add: parseFloat_string_def is_ws_def is_digit_def)

text \<open>
  C10. Called with no argument, \<open>progress\<close> returns \<open>NaN\<close> for every task, whatever
  progress its metadata holds: the getter applies \<open>parseFloat\<close> to the method
  \<open>this.progress\<close>, a function, not to \<open>this.metadata.progress\<close>. The call changes
  nothing.
\<close>

theorem progress_getter_NaN:
  "Task_progress f rt None den t w = (Inr (RNum NaN), t, w)"
  by (simp add: Task_progress_def progress_method_def parseFloat_function del: parseFloat.simps)

section \<open>Saving a task\<close>

lemmas task_op_defs = Task_save_def Let_def execute_def uidFunctions_def lacksTask_def
  hashGet_def hashMultiSet_def hashUnset_def expire_def publish_def remove_def
  Task_queue_def sortedAdd_def push_def hashSet_def as_reply_def resolve_def
  Task_deactivate_def run_def Task_priority_def

lemmas sample_defs = email_task_def new_Task_def queue_factory_def no_options_def start_def
  empty_store_def new_Dispatcher_def email_team_def defaults_of_def no_defaults_def
  normal_priority_def priorities_def or_else_def truthy_or_def typeKey_def waitKey_def
  uidKey_def serialize_def zadd1_def JSON_metadata_def JSON_number_def JSON_arguments_def

lemma occurs_first_split:
  "occurs_first z p cs \<Longrightarrow> z \<noteq> p \<Longrightarrow> cs = pre @ p # post \<Longrightarrow> z \<in> set pre"
proof (induction cs arbitrary: pre)
  case Nil
  then show ?case by simp
next
  case (Cons c cs)
  show ?case
  proof (cases pre)
    case Nil
    with Cons.prems show ?thesis by (auto split: if_splits)
  next
    case (Cons x pre')
    with Cons.prems Cons.IH [of pre'] show ?thesis by (auto split: if_splits)
  qed
qed

lemma save_order:
  "occurs_first (ZADD (waitKey f (t_type t)) [(- priority (t_metadata t), t_id t)])
                (RPUSH (typeKey f (t_type t)) [t_id t])
     (issued w (snd (snd (Task_save f t w))))"
  unfolding task_op_defs issued_def
  by (auto split: option.splits if_splits sum.splits prod.splits reply.splits)

text \<open>
  C3. In every execution of \<open>save\<close>, whatever the state of the store and of the
  connection: if the store executed the append of the id to the notify list of the type,
  it executed the insert of the id into the sorted set of the type, under the negated
  priority, before it.
\<close>

theorem save_queues_before_notifying:
  assumes "issued w (snd (snd (Task_save f t w)))
             = pre @ RPUSH (typeKey f (t_type t)) [t_id t] # post"
  shows "ZADD (waitKey f (t_type t)) [(- priority (t_metadata t), t_id t)] \<in> set pre"
  using occurs_first_split [OF save_order _ assms] by simp

theorem save_queues_before_notifying_witness:
  "issued start (snd (snd (Task_save queue_factory (email_task ''3'' no_options) start)))
     = [HMSET ''q:tasks:3'' (serialize (email_task ''3'' no_options)),
        ZADD ''q:tasks:email:waiting'' [(0, ''3'')]] @ RPUSH ''q:tasks:email'' [''3''] # []
   \<and> ZADD ''q:tasks:email:waiting'' [(0, ''3'')]
       \<in> set [HMSET ''q:tasks:3'' (serialize (email_task ''3'' no_options)),
               ZADD ''q:tasks:email:waiting'' [(0, ''3'')]]"
  using save_queues_before_notifying [of start queue_factory "email_task ''3'' no_options"
     "[HMSET ''q:tasks:3'' (serialize (email_task ''3'' no_options)),
        ZADD ''q:tasks:email:waiting'' [(0, ''3'')]]" "[]"]
  by (simp add: sample_defs task_op_defs issued_def)

section \<open>The store and the log of its commands\<close>

text \<open>
  A command that the store executes is added to the log and nothing is ever taken from
  the log; a sequence of operations inherits what holds of each: which commands it may
  add, and that its result depends on the data only.
\<close>

lemma zadd1_mem: "e \<in> set (zadd1 e zs)"
  by (simp add: zadd1_def set_insort_key)

lemma redis_cmd_log: "cmd_log (snd (redis c s)) = cmd_log s"
  by (cases c) (auto split: list.splits)

lemma redis_link: "link (snd (redis c s)) = link s"
  by (cases c) (auto split: list.splits)

lemma run_cmd_log:
  "cmd_log (snd (run c s)) = (if link s = Some 0 then cmd_log s else cmd_log s @ [c])"
  by (simp add: run_def split_def redis_cmd_log)

lemma run_Inr_log: "run c s = (Inr x, s') \<Longrightarrow> cmd_log s' = cmd_log s @ [c]"
  using run_cmd_log [of c s] by (auto simp: run_def split: if_splits)

lemma run_log_mono: "\<exists>cs. cmd_log (snd (run c s)) = cmd_log s @ cs"
  by (simp add: run_cmd_log)

lemma sequence_Cons_Inr:
  "sequence (g # gs) s = (Inr rs, s') \<Longrightarrow>
   \<exists>a s1 as. g s = (Inr a, s1) \<and> sequence gs s1 = (Inr as, s') \<and> rs = a # as"
  by (auto split: prod.splits sum.splits)

lemma sequence_log_mono:
  assumes "\<forall>g \<in> set gs. \<forall>s. \<exists>cs. cmd_log (snd (g s)) = cmd_log s @ cs"
  shows "\<exists>cs. cmd_log (snd (sequence gs s)) = cmd_log s @ cs"
  using assms
proof (induction gs arbitrary: s)
  case Nil
  show ?case by simp
next
  case (Cons g gs)
  from Cons.prems have "\<exists>cs. cmd_log (snd (g s)) = cmd_log s @ cs" by simp
  then obtain cs where cs: "cmd_log (snd (g s)) = cmd_log s @ cs" ..
  obtain r s1 where g: "g s = (r, s1)" by (cases "g s")
  show ?case
  proof (cases r)
    case (Inl e)
    with g cs show ?thesis by simp
  next
    case (Inr a)
    obtain cs' where cs': "cmd_log (snd (sequence gs s1)) = cmd_log s1 @ cs'"
      using Cons.IH [of s1] Cons.prems by auto
    obtain r2 s2 where q: "sequence gs s1 = (r2, s2)" by (cases "sequence gs s1")
    with g Inr cs cs' show ?thesis by (cases r2) auto
  qed
qed

lemma as_reply_snd: "snd (as_reply x) = snd x"
  by (simp add: as_reply_def case_prod_beta split: sum.splits)

lemma run_logs_only: "P c \<Longrightarrow> logs_only P (run c)"
  by (simp add: logs_only_def run_cmd_log)

lemma resolve_logs_only: "logs_only P resolve"
  by (simp add: logs_only_def resolve_def)

lemma sequence_logs_only:
  assumes "\<forall>g \<in> set gs. logs_only P g"
  shows "logs_only P (sequence gs)"
  using assms
proof (induction gs)
  case Nil
  show ?case by (simp add: logs_only_def)
next
  case (Cons g gs)
  have g: "logs_only P g" and gs: "logs_only P (sequence gs)"
    using Cons by simp_all
  show ?case
    unfolding logs_only_def
  proof
    fix s
    obtain cs where cs: "cmd_log (snd (g s)) = cmd_log s @ cs" "\<forall>c \<in> set cs. P c"
      using g unfolding logs_only_def by blast
    obtain cs' where cs': "cmd_log (snd (sequence gs (snd (g s)))) = cmd_log (snd (g s)) @ cs'"
        "\<forall>c \<in> set cs'. P c"
      using gs unfolding logs_only_def by blast
    show "\<exists>cs. cmd_log (snd (sequence (g # gs) s)) = cmd_log s @ cs \<and> (\<forall>c \<in> set cs. P c)"
    proof (cases "fst (g s)")
      case (Inl e)
      with cs show ?thesis by (auto simp: case_prod_beta)
    next
      case (Inr a)
      with cs cs' have "cmd_log (snd (sequence (g # gs) s)) = cmd_log s @ (cs @ cs')"
        by (simp add: case_prod_beta split: sum.splits)
      with cs cs' show ?thesis
        by (metis Un_iff set_append)
    qed
  qed
qed




section \<open>Announcing, queueing and finalizing\<close>

text \<open>
  An announcement adds one entry to the announcements and at most one publication to the
  log, and leaves the data of the store, the dispatcher and the timers alone.
  \<open>finalize\<close> is the sequence of three operations on the store given by \<open>finalize_shape\<close>.
\<close>

lemma announce_announced:
  "event \<noteq> [] \<Longrightarrow>
   announced (Task_announce f t event args w) = announced w @
     [if broadcastAll (t_metadata t) = Some True \<or> event \<in> set (broadcasts (t_metadata t))
      then \<lparr>a_id = t_id t, a_event = event, a_args = VStr event # args, a_reach = Broadcast\<rparr>
      else \<lparr>a_id = t_id t, a_event = event, a_args = args, a_reach = Local\<rparr>]"
  by (simp add: Task_announce_def Task_broadcasts_def Task_broadcast_def Dispatcher_broadcast_def
      Task_emit_def execute_def split_def split: sum.splits)

lemma announce_rest:
  "w_disp (Task_announce f t event args w) = w_disp w"
  "timers (Task_announce f t event args w) = timers w"
  "hashes (w_store (Task_announce f t event args w)) = hashes (w_store w)"
  "lists (w_store (Task_announce f t event args w)) = lists (w_store w)"
  "zsets (w_store (Task_announce f t event args w)) = zsets (w_store w)"
  "expiry (w_store (Task_announce f t event args w)) = expiry (w_store w)"
  by (simp_all add: Task_announce_def Task_broadcasts_def Task_broadcast_def Dispatcher_broadcast_def
      Task_emit_def execute_def publish_def run_def split_def split: sum.splits)

lemma announce_cmd_log:
  "\<exists>cs. cmd_log (w_store (Task_announce f t event args w)) = cmd_log (w_store w) @ cs
        \<and> set cs \<subseteq> {PUBLISH (eventsKey f)
                         \<lparr>env_id = t_id t, env_event = event,
                          env_args = JSON_arguments (VStr event # args)\<rparr>}"
  by (simp add: Task_announce_def Task_broadcasts_def Task_broadcast_def Dispatcher_broadcast_def
      Task_emit_def execute_def publish_def run_def split_def split: sum.splits)


lemma queue_Inr:
  assumes "Task_queue f t s = (Inr x, s')"
  shows "zsets s' = (zsets s)(waitKey f (t_type t) :=
            zadd1 (- priority (t_metadata t), t_id t) (zsets s (waitKey f (t_type t))))"
    and "lists s' = (lists s)(typeKey f (t_type t) := lists s (typeKey f (t_type t)) @ [t_id t])"
    and "hashes s' = hashes s"
  using assms
  unfolding Task_queue_def Let_def sortedAdd_def push_def as_reply_def resolve_def
    Task_deactivate_def run_def Task_priority_def
  by (auto split: option.splits if_splits sum.splits prod.splits)

lemma finalize_task:
  "fst (snd (Task_finalize f st pr err t w)) = t\<lparr>t_metadata := final_metadata st pr err (t_metadata t)\<rparr>"
  by (simp add: Task_finalize_def Let_def split_def final_metadata_def split: option.splits)

lemma finalize_announced:
  "announced (snd (snd (Task_finalize f st pr err t w))) = announced w"
  by (simp add: Task_finalize_def Let_def split_def execute_def expireFunction_def split: option.splits)

lemma finalize_shape:
  "Task_finalize f st pr err t w =
     (let t' = t\<lparr>t_metadata := final_metadata st pr err (t_metadata t)\<rparr>;
          gs = [hashSet (t_key t) ''metadata'' (HMeta (t_metadata t')),
                hashUnset (uidKey f (t_type t)) [case t_uid t of Some u \<Rightarrow> u | None \<Rightarrow> ''undefined''],
                (case removeAfter (t_metadata t') of None \<Rightarrow> resolve | Some n \<Rightarrow> expire (t_key t) n)]
      in (fst (as_reply (sequence gs (w_store w))), t',
          w\<lparr>timers := timers w @ (case removeAfter (t_metadata t') of None \<Rightarrow> []
                                   | Some n \<Rightarrow> [(1000 * n, AnnounceRemove (t_id t))]),
            w_store := snd (as_reply (sequence gs (w_store w)))\<rparr>))"
  by (simp add: Task_finalize_def Let_def case_prod_beta execute_def expireFunction_def
      final_metadata_def del: sequence.simps split: option.splits)

lemma finalize_Inr_log:
  assumes "Task_finalize f st pr err t w = (Inr x, t', w')"
  shows "HSET (t_key t) ''metadata'' (HMeta (JSON_metadata (t_metadata t'))) \<in> set (issued w w')"
proof -
  define md' where "md' = final_metadata st pr err (t_metadata t)"
  define gs where "gs = [hashUnset (uidKey f (t_type t)) [case t_uid t of Some u \<Rightarrow> u | None \<Rightarrow> ''undefined''],
                        fst (expireFunction f (t\<lparr>t_metadata := md'\<rparr>) w)]"
  define w1 where "w1 = snd (expireFunction f (t\<lparr>t_metadata := md'\<rparr>) w)"
  have t': "t' = t\<lparr>t_metadata := md'\<rparr>"
    using finalize_task [of f st pr err t w] assms by (simp add: md'_def)
  have st1: "w_store (snd (expireFunction f tt w)) = w_store w" for tt
    by (simp add: expireFunction_def split: option.splits)
  have eq: "Task_finalize f st pr err t w =
     (case as_reply (sequence (hashSet (t_key t) ''metadata'' (HMeta md') # gs) (w_store w)) of
        (r, s') \<Rightarrow> (r, t\<lparr>t_metadata := md'\<rparr>, w1\<lparr>w_store := s'\<rparr>))"
    by (simp add: Task_finalize_def Let_def case_prod_beta execute_def md'_def gs_def w1_def
        final_metadata_def st1 del: sequence.simps split: option.splits)
  obtain rs s' where sq: "sequence (hashSet (t_key t) ''metadata'' (HMeta md') # gs) (w_store w) = (Inr rs, s')"
    and w': "w' = w1\<lparr>w_store := s'\<rparr>"
    using assms unfolding eq as_reply_def by (auto split: prod.splits sum.splits)
  obtain a s1 as where h: "hashSet (t_key t) ''metadata'' (HMeta md') (w_store w) = (Inr a, s1)"
    and rest: "sequence gs s1 = (Inr as, s')"
    using sequence_Cons_Inr [OF sq] by blast
  have l1: "cmd_log s1 = cmd_log (w_store w) @ [HSET (t_key t) ''metadata'' (HMeta (JSON_metadata md'))]"
    using h run_Inr_log by (simp add: hashSet_def)
  have "\<forall>g \<in> set gs. \<forall>s. \<exists>cs. cmd_log (snd (g s)) = cmd_log s @ cs"
    by (auto simp: gs_def hashUnset_def expireFunction_def expire_def resolve_def run_log_mono
        split: option.splits)
  then obtain cs where "cmd_log (snd (sequence gs s1)) = cmd_log s1 @ cs"
    using sequence_log_mono by blast
  with rest l1 have "cmd_log s' = cmd_log (w_store w) @ HSET (t_key t) ''metadata'' (HMeta (JSON_metadata md')) # cs"
    by simp
  then show ?thesis by (simp add: issued_def w' t')
qed

lemma finalize_logs:
  assumes "P (HSET (t_key t) ''metadata'' (HMeta (JSON_metadata (final_metadata st pr err (t_metadata t)))))"
    and "\<And>k fs. P (HDEL k fs)" and "\<And>k n. P (EXPIRE k n)"
  shows "\<exists>cs. cmd_log (w_store (snd (snd (Task_finalize f st pr err t w)))) = cmd_log (w_store w) @ cs
           \<and> (\<forall>c \<in> set cs. P c)"
proof -
  define t' where "t' = t\<lparr>t_metadata := final_metadata st pr err (t_metadata t)\<rparr>"
  define gs where "gs = [hashSet (t_key t) ''metadata'' (HMeta (t_metadata t')),
                hashUnset (uidKey f (t_type t)) [case t_uid t of Some u \<Rightarrow> u | None \<Rightarrow> ''undefined''],
                (case removeAfter (t_metadata t') of None \<Rightarrow> resolve | Some n \<Rightarrow> expire (t_key t) n)]"
  have "\<forall>g \<in> set gs. logs_only P g"
    using assms
    by (auto simp: gs_def t'_def hashSet_def hashUnset_def expire_def run_logs_only resolve_logs_only
        split: option.splits)
  then have "logs_only P (sequence gs)" by (rule sequence_logs_only)
  then have "\<exists>cs. cmd_log (snd (sequence gs (w_store w))) = cmd_log (w_store w) @ cs \<and> (\<forall>c \<in> set cs. P c)"
    by (simp add: logs_only_def)
  then show ?thesis
    by (simp add: finalize_shape Let_def as_reply_snd gs_def t'_def del: sequence.simps)
qed



lemma info_logs:
  "\<exists>cs. cmd_log (w_store (snd (snd (Task_info f (Some ch) t w)))) = cmd_log (w_store w) @ cs
        \<and> (\<forall>c \<in> set cs. c = HSET (t_key t) ''metadata'' (HMeta (JSON_metadata (ch (t_metadata t)))))"
  by (simp add: Task_info_def Let_def execute_def case_prod_beta hashSet_def run_cmd_log)

section \<open>Failure: retry or final state\<close>

lemma failure_retry:
  assumes "attempts (t_metadata t) < maxAttempts (t_metadata t)"
  shows "\<exists>r w' a. Task_failure f err t w = (r, t, w')
          \<and> announced w' = announced w @ [a] \<and> a_id a = t_id t \<and> a_event a = ''retry''
          \<and> (\<forall>x. r = Inr x \<longrightarrow> waiting f t w'
                \<and> lists (w_store w') (typeKey f (t_type t))
                   = lists (w_store w) (typeKey f (t_type t)) @ [t_id t])"
proof -
  define w1 where "w1 = Task_announce f t ''retry'' [] w"
  obtain r s' where q: "Task_queue f t (w_store w1) = (r, s')"
    by (cases "Task_queue f t (w_store w1)")
  have res: "Task_failure f err t w = (r, t, w1\<lparr>w_store := s'\<rparr>)"
    using assms q by (simp add: Task_failure_def execute_def w1_def)
  have ann: "announced (w1\<lparr>w_store := s'\<rparr>) = announced w @
     [if broadcastAll (t_metadata t) = Some True \<or> ''retry'' \<in> set (broadcasts (t_metadata t))
      then \<lparr>a_id = t_id t, a_event = ''retry'', a_args = [VStr ''retry''], a_reach = Broadcast\<rparr>
      else \<lparr>a_id = t_id t, a_event = ''retry'', a_args = [], a_reach = Local\<rparr>]"
    by (simp add: w1_def announce_announced)
  have qd: "waiting f t (w1\<lparr>w_store := s'\<rparr>)
            \<and> lists (w_store (w1\<lparr>w_store := s'\<rparr>)) (typeKey f (t_type t))
                = lists (w_store w) (typeKey f (t_type t)) @ [t_id t]" if "r = Inr x" for x
    using queue_Inr [of f t "w_store w1" x s'] q that
    by (simp add: waiting_def zadd1_mem w1_def announce_rest)
  show ?thesis
    using res ann qd by (intro exI conjI) (rule res, rule ann, auto)
qed


lemma failure_final:
  assumes "maxAttempts (t_metadata t) \<le> attempts (t_metadata t)" and "err \<noteq> ErrNull"
  shows "\<exists>r t' w' a. Task_failure f err t w = (r, t', w')
          \<and> announced w' = announced w @ [a] \<and> a_id a = t_id t \<and> a_event a = ''failure''
          \<and> state (t_metadata t') = ''failure'' \<and> progress (t_metadata t') = None
          \<and> error (t_metadata t') = (case err of
                                        ErrValue e \<Rightarrow> if e = [] then error (t_metadata t) else Some e
                                      | _ \<Rightarrow> Some ''Unknown error'')
          \<and> (\<forall>x. r = Inr x \<longrightarrow>
                HSET (t_key t) ''metadata'' (HMeta (JSON_metadata (t_metadata t')))
                  \<in> set (issued w w'))"
proof -
  define w1 where "w1 = Task_announce f t ''failure'' [] w"
  define errMsg where "errMsg = (case err of ErrValue e \<Rightarrow> e | _ \<Rightarrow> ''Unknown error'')"
  obtain r t' w' where fin: "Task_finalize f ''failure'' None (Some errMsg) t w1 = (r, t', w')"
    by (cases "Task_finalize f ''failure'' None (Some errMsg) t w1") auto
  have res: "Task_failure f err t w = (r, t', w')"
    using assms fin
    by (cases err)
       (simp_all add: Task_failure_def execute_def Task_deactivate_def resolve_def w1_def errMsg_def)
  have t': "t' = t\<lparr>t_metadata := final_metadata ''failure'' None (Some errMsg) (t_metadata t)\<rparr>"
    using finalize_task [of f "''failure''" None "Some errMsg" t w1] fin by simp
  have ann: "announced w' = announced w @
     [if broadcastAll (t_metadata t) = Some True \<or> ''failure'' \<in> set (broadcasts (t_metadata t))
      then \<lparr>a_id = t_id t, a_event = ''failure'', a_args = [VStr ''failure''], a_reach = Broadcast\<rparr>
      else \<lparr>a_id = t_id t, a_event = ''failure'', a_args = [], a_reach = Local\<rparr>]"
    using finalize_announced [of f "''failure''" None "Some errMsg" t w1] fin
    by (simp add: w1_def announce_announced)
  have lg: "HSET (t_key t) ''metadata'' (HMeta (JSON_metadata (t_metadata t'))) \<in> set (issued w w')"
    if "r = Inr x" for x
  proof -
    have "HSET (t_key t) ''metadata'' (HMeta (JSON_metadata (t_metadata t'))) \<in> set (issued w1 w')"
      using finalize_Inr_log fin that by blast
    moreover obtain cs where "cmd_log (w_store w1) = cmd_log (w_store w) @ cs"
      using announce_cmd_log [of f t "''failure''" "[]" w] by (auto simp: w1_def)
    ultimately show ?thesis
      using set_drop_subset_set_drop [of "length (cmd_log (w_store w))" "length (cmd_log (w_store w1))" "cmd_log (w_store w')"]
      by (auto simp: issued_def)
  qed
  have md: "state (t_metadata t') = ''failure'' \<and> progress (t_metadata t') = None
          \<and> error (t_metadata t') = (case err of
                                        ErrValue e \<Rightarrow> if e = [] then error (t_metadata t) else Some e
                                      | _ \<Rightarrow> Some ''Unknown error'')"
    using assms(2) by (cases err) (simp_all add: t' final_metadata_def errMsg_def)
  show ?thesis
    using res ann md lg by (intro exI conjI) (rule res, rule ann, auto)
qed

lemma failure_null:
  assumes "maxAttempts (t_metadata t) \<le> attempts (t_metadata t)"
  shows "Task_failure f ErrNull t w = (Inl (Thrown ''TypeError''), t, w)"
  using assms by (simp add: Task_failure_def)

lemmas sample_task_defs = active_task_def Task_activate_def Task_info_def sample_defs execute_def
  hashSet_def run_def Let_def

lemma active_task_2: "attempts (t_metadata (active_task (no_options\<lparr>o_maxAttempts := Some 2\<rparr>))) = 1"
  "maxAttempts (t_metadata (active_task (no_options\<lparr>o_maxAttempts := Some 2\<rparr>))) = 2"
  "state (t_metadata (active_task (no_options\<lparr>o_maxAttempts := Some 2\<rparr>))) = ''active''"
  by (simp_all add: sample_task_defs)

text \<open>
  C4 fails on the code. A task of type \<open>email\<close> with \<open>maxAttempts = 2\<close> has been activated
  once: one attempt made, state \<open>active\<close>. \<open>failure()\<close> finds an attempt left, announces
  \<open>retry\<close> and queues the task again: the store receives the id for the sorted set and
  for the list of the type, and nothing else. The state of the task is still \<open>active\<close>,
  not \<open>waiting\<close>, and no metadata is written: \<open>queue\<close> calls \<open>deactivate\<close>, which does
  nothing yet, and \<open>waitlist\<close>, which would set the state, is not called.
\<close>

theorem failure_retry_leaves_state_active:
  "attempts (t_metadata (active_task (no_options\<lparr>o_maxAttempts := Some 2\<rparr>)))
     < maxAttempts (t_metadata (active_task (no_options\<lparr>o_maxAttempts := Some 2\<rparr>)))
   \<and> fst (Task_failure queue_factory ErrUndefined
         (active_task (no_options\<lparr>o_maxAttempts := Some 2\<rparr>)) start) = Inr (RList [ROk, ROk, ROk])
   \<and> map a_event (announced (snd (snd (Task_failure queue_factory ErrUndefined
         (active_task (no_options\<lparr>o_maxAttempts := Some 2\<rparr>)) start)))) = [''retry'']
   \<and> issued start (snd (snd (Task_failure queue_factory ErrUndefined
         (active_task (no_options\<lparr>o_maxAttempts := Some 2\<rparr>)) start)))
       = [ZADD ''q:tasks:email:waiting'' [(0, ''1'')], RPUSH ''q:tasks:email'' [''1'']]
   \<and> state (t_metadata (fst (snd (Task_failure queue_factory ErrUndefined
         (active_task (no_options\<lparr>o_maxAttempts := Some 2\<rparr>)) start)))) = ''active''"
  by (simp add: Task_failure_def Task_announce_def Task_broadcasts_def Task_emit_def
      sample_task_defs task_op_defs issued_def)

section \<open>\<open>progress(100)\<close> and \<open>success()\<close>\<close>





section \<open>The progress setter\<close>

lemma Math_min_100: "\<not> js_less (Num 100) (Math_min a (Num 100))"
  by (cases a) auto

lemma progress_setter_log:
  fixes n den rt
  defines "p \<equiv> Math_min (case den of None \<Rightarrow> n | Some d \<Rightarrow> divide rt (times rt (Num 100) n) d) (Num 100)"
  assumes "HSET k fld (HMeta m) \<in> set (issued w (snd (snd (Task_progress f rt (Some n) den t w))))"
  shows "progress m = JSON_number (Some p)"
proof -
  define P where "P = (\<lambda>c. \<forall>k fld m. c = HSET k fld (HMeta m) \<longrightarrow> progress m = JSON_number (Some p))"
  define w1 where "w1 = Task_announce f t ''progress'' [VNum p] w"
  define w' where "w' = snd (snd (Task_progress f rt (Some n) den t w))"
  obtain cs1 where cs1: "cmd_log (w_store w1) = cmd_log (w_store w) @ cs1" "\<forall>c \<in> set cs1. P c"
    using announce_cmd_log [of f t "''progress''" "[VNum p]" w] by (auto simp: w1_def P_def)
  have "\<exists>cs. cmd_log (w_store w') = cmd_log (w_store w1) @ cs \<and> (\<forall>c \<in> set cs. P c)"
  proof (cases "p = Num 100")
    case True
    then have "w' = snd (snd (Task_finalize f ''success'' (Some (Num 100)) None t w1))"
      by (simp add: w'_def Task_progress_def Let_def w1_def p_def split: option.splits)
    moreover have "P (HSET (t_key t) ''metadata''
        (HMeta (JSON_metadata (final_metadata ''success'' (Some (Num 100)) None (t_metadata t)))))"
      using True by (simp add: P_def final_metadata_def JSON_metadata_def JSON_number_def)
    ultimately show ?thesis
      using finalize_logs [of P t "''success''" "Some (Num 100)" None f w1] by (simp add: P_def)
  next
    case False
    then have "w' = snd (snd (Task_info f (Some (\<lambda>m. m\<lparr>progress := Some p\<rparr>)) t w1))"
      by (simp add: w'_def Task_progress_def Let_def w1_def p_def split: option.splits)
    then obtain cs where cs: "cmd_log (w_store w') = cmd_log (w_store w1) @ cs"
        "\<forall>c \<in> set cs. c = HSET (t_key t) ''metadata''
            (HMeta (JSON_metadata ((t_metadata t)\<lparr>progress := Some p\<rparr>)))"
      using info_logs [of f "\<lambda>m. m\<lparr>progress := Some p\<rparr>" t w1] by auto
    have "\<forall>c \<in> set cs. P c"
    proof
      fix c assume "c \<in> set cs"
      with cs(2) have "c = HSET (t_key t) ''metadata''
          (HMeta (JSON_metadata ((t_metadata t)\<lparr>progress := Some p\<rparr>)))"
        by blast
      then show "P c" by (simp add: P_def JSON_metadata_def)
    qed
    with cs(1) show ?thesis by blast
  qed
  then obtain cs2 where cs2: "cmd_log (w_store w') = cmd_log (w_store w1) @ cs2" "\<forall>c \<in> set cs2. P c"
    by blast
  have "issued w w' = cs1 @ cs2"
    using cs1 cs2 by (simp add: issued_def)
  with assms(2) cs1 cs2 show ?thesis
    by (auto simp: P_def w'_def)
qed

lemma progress_setter_task:
  "progress (t_metadata (fst (snd (Task_progress f rt (Some n) den t w))))
   = Some (Math_min (case den of None \<Rightarrow> n | Some d \<Rightarrow> divide rt (times rt (Num 100) n) d) (Num 100))"
  by (simp add: Task_progress_def Let_def finalize_task final_metadata_def Task_info_def
      case_prod_beta split: option.splits)

text \<open>
  C7, as the code has it. \<open>progress(value)\<close> keeps \<open>Math.min(value, 100)\<close> and
  \<open>progress(value, total)\<close> keeps \<open>Math.min(100 * value / total, 100)\<close>, product and
  quotient as the runtime computes them, whatever the runtime: the progress of the task
  afterwards is that number \<open>p\<close>, it is not above 100, and every metadata the call
  writes to the store carries \<open>p\<close> as JSON writes it (\<open>null\<close> when \<open>p\<close> is \<open>NaN\<close> or
  infinite). There is no lower bound.
\<close>

theorem progress_setter_at_most_100:
  "\<exists>p. p = Math_min (case den of None \<Rightarrow> n
                     | Some d \<Rightarrow> divide rt (times rt (Num 100) n) d) (Num 100)
      \<and> \<not> js_less (Num 100) p
      \<and> progress (t_metadata (fst (snd (Task_progress f rt (Some n) den t w)))) = Some p
      \<and> (\<forall>k fld m. HSET k fld (HMeta m)
                     \<in> set (issued w (snd (snd (Task_progress f rt (Some n) den t w))))
            \<longrightarrow> progress m = JSON_number (Some p))"
  using progress_setter_log [of _ _ _ w f rt n den t] progress_setter_task [of f rt n den t w]
    Math_min_100
  by blast


lemmas progress_eval_defs = Task_progress_def Task_announce_def Task_broadcasts_def Task_emit_def
  Task_info_def Task_finalize_def execute_def hashSet_def run_def Let_def issued_def sample_defs

theorem progress_setter_at_most_100_witness:
  "HSET ''q:tasks:1'' ''metadata''
     (HMeta ((t_metadata (email_task ''1'' no_options))\<lparr>progress := Some (Num 50)\<rparr>))
     \<in> set (issued start (snd (snd (Task_progress queue_factory sample_runtime (Some (Num 50)) None
                                     (email_task ''1'' no_options) start))))
   \<and> progress ((t_metadata (email_task ''1'' no_options))\<lparr>progress := Some (Num 50)\<rparr>)
       = JSON_number (Some (Math_min (Num 50) (Num 100)))"
proof -
  have mem: "HSET ''q:tasks:1'' ''metadata''
     (HMeta ((t_metadata (email_task ''1'' no_options))\<lparr>progress := Some (Num 50)\<rparr>))
     \<in> set (issued start (snd (snd (Task_progress queue_factory sample_runtime (Some (Num 50)) None
                                     (email_task ''1'' no_options) start))))"
    by (simp add: progress_eval_defs)
  show ?thesis
    using mem progress_setter_at_most_100 [where den = None and n = "Num 50" and f = queue_factory
        and rt = sample_runtime and t = "email_task ''1'' no_options" and w = start]
    by auto
qed

text \<open>
  C7 as stated fails: \<open>progress(-5)\<close> persists the progress \<open>-5\<close>, which is below 0.
\<close>

theorem progress_below_zero_counterexample:
  "persisted_progress (snd (snd (Task_progress queue_factory sample_runtime (Some (Num (- 5))) None
                                   (email_task ''1'' no_options) start))) ''q:tasks:1''
     = Some (Num (- 5))
   \<and> js_less (Num (- 5)) (Num 0)"
  by (simp add: progress_eval_defs persisted_progress_def)

section \<open>Removing a task\<close>

lemma new_Task_broadcasts:
  "broadcasts (t_metadata (new_Task f now ident ty dat opts))
   = (case o_broadcasts opts of Some bs \<Rightarrow> bs | None \<Rightarrow> [''remove''])"
  by (simp add: new_Task_def Let_def Task_priority_def split: option.splits prio.splits)

lemma rehydrate_broadcasts:
  "broadcasts (t_metadata (rehydrate f r)) = broadcasts (t_metadata r)"
  by (simp add: rehydrate_def Let_def)

lemma remove_order:
  assumes "''remove'' \<in> set (broadcasts (t_metadata t))"
  shows "occurs_first (PUBLISH (eventsKey f)
                        \<lparr>env_id = t_id t, env_event = ''remove'', env_args = [VStr ''remove'']\<rparr>)
                      (DEL (t_key t))
           (issued w (snd (snd (Task_remove f t w))))"
  using assms
  by (simp add: Task_remove_def Task_announce_def Task_broadcasts_def Task_broadcast_def
      Dispatcher_broadcast_def execute_def publish_def remove_def run_def issued_def case_prod_beta
      JSON_arguments_def)

lemma remove_deletes:
  assumes "fst (Task_remove f t w) = Inr x"
  shows "hashes (w_store (snd (snd (Task_remove f t w)))) (t_key t) = []"
  using assms
  by (simp add: Task_remove_def execute_def remove_def run_def case_prod_beta announce_rest
      split: if_splits)

lemma remove_announced:
  "announced (snd (snd (Task_remove f t w))) = announced w @
     [if broadcastAll (t_metadata t) = Some True \<or> ''remove'' \<in> set (broadcasts (t_metadata t))
      then \<lparr>a_id = t_id t, a_event = ''remove'', a_args = [VStr ''remove''], a_reach = Broadcast\<rparr>
      else \<lparr>a_id = t_id t, a_event = ''remove'', a_args = [], a_reach = Local\<rparr>]"
  by (simp add: Task_remove_def execute_def case_prod_beta announce_announced)

text \<open>
  C8, as the code has it. A new task made without a \<open>broadcasts\<close> option has \<open>remove\<close>
  in \<open>metadata.broadcasts\<close>; a task made from a stored record keeps the stored list. For
  every task whose list holds \<open>remove\<close>, \<open>remove()\<close> broadcasts the event: if the store
  executed the deletion of the hash record, it executed the publication before it; and
  when the deletion succeeds the record is gone.
\<close>

theorem remove_broadcast_by_default:
  "(o_broadcasts opts = None \<longrightarrow>
      ''remove'' \<in> set (broadcasts (t_metadata (new_Task f now ident ty dat opts))))
   \<and> broadcasts (t_metadata (rehydrate f t)) = broadcasts (t_metadata t)
   \<and> (''remove'' \<in> set (broadcasts (t_metadata t)) \<longrightarrow>
        announced (snd (snd (Task_remove f t w))) = announced w @
          [\<lparr>a_id = t_id t, a_event = ''remove'', a_args = [VStr ''remove''], a_reach = Broadcast\<rparr>]
        \<and> (\<forall>pre post. issued w (snd (snd (Task_remove f t w))) = pre @ DEL (t_key t) # post \<longrightarrow>
              PUBLISH (eventsKey f)
                \<lparr>env_id = t_id t, env_event = ''remove'', env_args = [VStr ''remove'']\<rparr> \<in> set pre)
        \<and> (\<forall>x. fst (Task_remove f t w) = Inr x \<longrightarrow>
              hashes (w_store (snd (snd (Task_remove f t w)))) (t_key t) = []))"
proof (intro conjI impI allI)
  assume "o_broadcasts opts = None"
  then show "''remove'' \<in> set (broadcasts (t_metadata (new_Task f now ident ty dat opts)))"
    by (simp add: new_Task_broadcasts)
next
  show "broadcasts (t_metadata (rehydrate f t)) = broadcasts (t_metadata t)"
    by (rule rehydrate_broadcasts)
next
  assume "''remove'' \<in> set (broadcasts (t_metadata t))"
  then show "announced (snd (snd (Task_remove f t w))) = announced w @
          [\<lparr>a_id = t_id t, a_event = ''remove'', a_args = [VStr ''remove''], a_reach = Broadcast\<rparr>]"
    by (simp add: remove_announced)
next
  fix pre post
  assume r: "''remove'' \<in> set (broadcasts (t_metadata t))"
    and i: "issued w (snd (snd (Task_remove f t w))) = pre @ DEL (t_key t) # post"
  show "PUBLISH (eventsKey f)
          \<lparr>env_id = t_id t, env_event = ''remove'', env_args = [VStr ''remove'']\<rparr> \<in> set pre"
    using occurs_first_split [OF remove_order [OF r] _ i] by simp
next
  fix x
  assume "fst (Task_remove f t w) = Inr x"
  then show "hashes (w_store (snd (snd (Task_remove f t w)))) (t_key t) = []"
    by (rule remove_deletes)
qed

lemmas remove_eval_defs = Task_remove_def Task_announce_def Task_broadcasts_def Task_broadcast_def
  Dispatcher_broadcast_def Task_emit_def execute_def publish_def remove_def run_def Let_def
  issued_def eventsKey_def sample_defs

theorem remove_broadcast_by_default_witness:
  "o_broadcasts no_options = None
   \<and> ''remove'' \<in> set (broadcasts (t_metadata (email_task ''1'' no_options)))
   \<and> issued start (snd (snd (Task_remove queue_factory (email_task ''1'' no_options) start)))
       = [PUBLISH ''q:events''
            \<lparr>env_id = ''1'', env_event = ''remove'', env_args = [VStr ''remove'']\<rparr>]
         @ DEL ''q:tasks:1'' # []
   \<and> PUBLISH ''q:events'' \<lparr>env_id = ''1'', env_event = ''remove'', env_args = [VStr ''remove'']\<rparr>
       \<in> set [PUBLISH ''q:events''
                 \<lparr>env_id = ''1'', env_event = ''remove'', env_args = [VStr ''remove'']\<rparr>]
   \<and> fst (Task_remove queue_factory (email_task ''1'' no_options) start) = Inr ROk
   \<and> hashes (w_store (snd (snd (Task_remove queue_factory (email_task ''1'' no_options) start))))
        ''q:tasks:1'' = []"
proof -
  have a: "o_broadcasts no_options = None"
    by (simp add: no_options_def)
  have b: "issued start (snd (snd (Task_remove queue_factory (email_task ''1'' no_options) start)))
       = [PUBLISH ''q:events''
            \<lparr>env_id = ''1'', env_event = ''remove'', env_args = [VStr ''remove'']\<rparr>]
         @ DEL ''q:tasks:1'' # []"
    by (simp add: remove_eval_defs)
  have c: "fst (Task_remove queue_factory (email_task ''1'' no_options) start) = Inr ROk"
    by (simp add: remove_eval_defs)
  have k: "t_key (email_task ''1'' no_options) = ''q:tasks:1''" "t_id (email_task ''1'' no_options) = ''1''"
    "eventsKey queue_factory = ''q:events''"
    by (simp_all add: remove_eval_defs)
  show ?thesis
    using a b c k
      remove_broadcast_by_default [of no_options queue_factory 0 "''1''" "''email''"
        "\<lparr>p_uid = None, p_body = ''{}''\<rparr>" "email_task ''1'' no_options" start]
    unfolding email_task_def [symmetric]
    by (auto simp del: append.simps)
qed

text \<open>
  C8 as stated fails: a task made with the option \<open>broadcasts = [success]\<close> has no
  \<open>remove\<close> in its list, and \<open>remove()\<close> then emits the event to the local listeners
  only: the store receives the deletion and no publication.
\<close>

theorem remove_not_broadcast_counterexample:
  "''remove'' \<notin> set (broadcasts (t_metadata
       (email_task ''1'' (no_options\<lparr>o_broadcasts := Some [''success'']\<rparr>))))
   \<and> issued start (snd (snd (Task_remove queue_factory
         (email_task ''1'' (no_options\<lparr>o_broadcasts := Some [''success'']\<rparr>)) start)))
       = [DEL ''q:tasks:1'']
   \<and> announced (snd (snd (Task_remove queue_factory
         (email_task ''1'' (no_options\<lparr>o_broadcasts := Some [''success'']\<rparr>)) start)))
       = [\<lparr>a_id = ''1'', a_event = ''remove'', a_args = [], a_reach = Local\<rparr>]"
  by (simp add: remove_eval_defs)

section \<open>Saving twice under one uid\<close>

lemma save_reserves_uid:
  assumes "t_uid t = Some u" and "Task_save f t w = (Inr r, t', w')"
  shows "map_of (hashes (w_store w') (uidKey f (t_type t))) u = Some (HText (t_id t))"
  using assms unfolding task_op_defs
  by (auto split: option.splits if_splits sum.splits prod.splits reply.splits simp: update_conv')

lemma save_record:
  assumes "Task_save f t w = (Inr r, t', w')" and "t_key t \<noteq> uidKey f (t_type t)"
    and "(fld, v) \<in> set (serialize t)"
  shows "map_of (hashes (w_store w') (t_key t)) fld = Some v"
  using assms unfolding task_op_defs serialize_def
  by (auto split: option.splits if_splits sum.splits prod.splits reply.splits simp: update_conv')

lemma save_taken:
  assumes "t_uid t = Some u" and "map_of (hashes (w_store w) (uidKey f (t_type t))) u = Some v"
    and "link (w_store w) \<noteq> Some 0"
  shows "\<exists>w'. Task_save f t w = (Inl DuplicateKey, t, w')
           \<and> hashes (w_store w') = hashes (w_store w) \<and> lists (w_store w') = lists (w_store w)
           \<and> zsets (w_store w') = zsets (w_store w) \<and> expiry (w_store w') = expiry (w_store w)
           \<and> issued w w' = [HGET (uidKey f (t_type t)) u]"
  using assms unfolding task_op_defs issued_def
  by (auto split: option.splits if_splits sum.splits prod.splits reply.splits)

lemma save_succeeds:
  assumes "t_uid t = Some u" and "map_of (hashes (w_store w) (uidKey f (t_type t))) u = None"
    and "link (w_store w) = None"
  shows "\<exists>r w'. Task_save f t w = (Inr r, t, w') \<and> link (w_store w') = None"
  using assms unfolding task_op_defs
  by (auto split: option.splits if_splits sum.splits prod.splits reply.splits)

text \<open>
  C6. Two tasks of one type carry the same uid, the uid is free and the connection holds.
  Then the first \<open>save\<close> succeeds, and the second, called next, rejects with the
  duplicate-key error: it sends the store the one read of the uid and no write, so no
  hash record, notify entry or priority entry comes from it; and every field of the
  record of the first task can still be read.
\<close>

theorem duplicate_uid_rejected:
  assumes "t_uid t1 = Some u" and "t_uid t2 = Some u" and "t_type t1 = t_type t2"
    and "map_of (hashes (w_store w) (uidKey f (t_type t1))) u = None"
    and "link (w_store w) = None"
    and "t_key t1 \<noteq> uidKey f (t_type t1)"
  shows "\<exists>r w1 w2. Task_save f t1 w = (Inr r, t1, w1)
           \<and> Task_save f t2 w1 = (Inl DuplicateKey, t2, w2)
           \<and> issued w1 w2 = [HGET (uidKey f (t_type t2)) u]
           \<and> hashes (w_store w2) = hashes (w_store w1) \<and> lists (w_store w2) = lists (w_store w1)
           \<and> zsets (w_store w2) = zsets (w_store w1) \<and> expiry (w_store w2) = expiry (w_store w1)
           \<and> (\<forall>(fld, v) \<in> set (serialize t1).
                 map_of (hashes (w_store w2) (t_key t1)) fld = Some v)"
proof -
  obtain r w1 where s1: "Task_save f t1 w = (Inr r, t1, w1)" and l1: "link (w_store w1) = None"
    using save_succeeds [OF assms(1) assms(4) assms(5)] by blast
  have taken: "map_of (hashes (w_store w1) (uidKey f (t_type t2))) u = Some (HText (t_id t1))"
    using save_reserves_uid [OF assms(1) s1] assms(3) by simp
  from l1 have up: "link (w_store w1) \<noteq> Some 0" by simp
  obtain w2 where w2: "Task_save f t2 w1 = (Inl DuplicateKey, t2, w2)"
      "hashes (w_store w2) = hashes (w_store w1)" "lists (w_store w2) = lists (w_store w1)"
      "zsets (w_store w2) = zsets (w_store w1)" "expiry (w_store w2) = expiry (w_store w1)"
      "issued w1 w2 = [HGET (uidKey f (t_type t2)) u]"
    using save_taken [OF assms(2) taken up] by blast
  have rec: "\<forall>(fld, v) \<in> set (serialize t1). map_of (hashes (w_store w1) (t_key t1)) fld = Some v"
    using save_record [OF s1 assms(6)] by blast
  show ?thesis
    using s1 w2 rec by (intro exI conjI) (rule s1, rule w2(1), auto)
qed

theorem duplicate_uid_rejected_witness:
  "t_uid (uid_task ''1'') = Some ''Hello1'' \<and> t_uid (uid_task ''2'') = Some ''Hello1''
   \<and> t_type (uid_task ''1'') = t_type (uid_task ''2'')
   \<and> map_of (hashes (w_store start) (uidKey queue_factory (t_type (uid_task ''1'')))) ''Hello1'' = None
   \<and> link (w_store start) = None
   \<and> t_key (uid_task ''1'') \<noteq> uidKey queue_factory (t_type (uid_task ''1''))
   \<and> (\<exists>r w1 w2. Task_save queue_factory (uid_task ''1'') start = (Inr r, uid_task ''1'', w1)
         \<and> Task_save queue_factory (uid_task ''2'') w1 = (Inl DuplicateKey, uid_task ''2'', w2)
         \<and> hashes (w_store w2) = hashes (w_store w1)
         \<and> map_of (hashes (w_store w2) (t_key (uid_task ''1''))) ''id'' = Some (HText ''1''))"
proof -
  have h: "t_uid (uid_task ''1'') = Some ''Hello1''" "t_uid (uid_task ''2'') = Some ''Hello1''"
    "t_type (uid_task ''1'') = t_type (uid_task ''2'')"
    "map_of (hashes (w_store start) (uidKey queue_factory (t_type (uid_task ''1'')))) ''Hello1'' = None"
    "link (w_store start) = None"
    "t_key (uid_task ''1'') \<noteq> uidKey queue_factory (t_type (uid_task ''1''))"
    by (simp_all add: uid_task_def sample_defs Let_def)
  have m: "(''id'', HText ''1'') \<in> set (serialize (uid_task ''1''))"
    by (simp add: uid_task_def sample_defs Let_def)
  show ?thesis
    using h m duplicate_uid_rejected [OF h] by fastforce
qed

section \<open>Priority order of deliveries\<close>

text \<open>
  A call of \<open>getNextJob\<close> with a worker waiting either changes no sorted set and hands
  out nothing, or hands the first worker the first member of the sorted set of the type
  (nothing, if the set is empty). From this, \<open>order_inv\<close> is kept by every event of a run,
  and so is \<open>store_inv\<close>, which holds at the start.
\<close>

lemma getNextJob_effect:
  assumes "waitlist (w_disp w) ty' \<noteq> []"
  shows "(zsets (w_store (snd (Dispatcher_getNextJob f ty' w))) = zsets (w_store w)
          \<and> delegated (w_disp (snd (Dispatcher_getNextJob f ty' w))) = delegated (w_disp w)
          \<and> waitlist (w_disp (snd (Dispatcher_getNextJob f ty' w))) = waitlist (w_disp w)
          \<and> (\<forall>ty. ty \<noteq> ty' \<longrightarrow> pending (w_disp (snd (Dispatcher_getNextJob f ty' w))) ty
                                 = pending (w_disp w) ty))
       \<or> (\<exists>tm rest. waitlist (w_disp w) ty' = tm # rest
            \<and> waitlist (w_disp (snd (Dispatcher_getNextJob f ty' w))) = (waitlist (w_disp w))(ty' := rest)
            \<and> pending (w_disp (snd (Dispatcher_getNextJob f ty' w)))
                = (pending (w_disp w))(ty' := rest \<noteq> [])
            \<and> ((zsets (w_store w) (waitKey f ty') = []
                  \<and> zsets (w_store (snd (Dispatcher_getNextJob f ty' w))) = zsets (w_store w)
                  \<and> delegated (w_disp (snd (Dispatcher_getNextJob f ty' w)))
                      = delegated (w_disp w) @ [(ty', tm, None)])
               \<or> (\<exists>e es. zsets (w_store w) (waitKey f ty') = e # es
                    \<and> zsets (w_store (snd (Dispatcher_getNextJob f ty' w)))
                        = (zsets (w_store w))(waitKey f ty' := es)
                    \<and> delegated (w_disp (snd (Dispatcher_getNextJob f ty' w)))
                        = delegated (w_disp w) @ [(ty', tm, Some (snd e))])))"
  using assms
  unfolding Dispatcher_getNextJob_def Let_def execute_def blockPop_def sortedPop_def run_def
    runTask_def waitKey_def typeKey_def
  by (auto split: list.splits option.splits if_splits sum.splits prod.splits error.splits)


lemma waitKey_inj: "waitKey f ty = waitKey f ty' \<Longrightarrow> ty = ty'"
  by (simp add: waitKey_def typeKey_def)

lemma delivered_first_append:
  "delivered_first ty a b (xs @ ys) =
     (if \<exists>tm. (ty, tm, Some a) \<in> set xs then delivered_first ty a b xs
      else delivered_first ty a b xs \<and> delivered_first ty a b ys)"
proof (induction xs)
  case Nil
  show ?case by simp
next
  case (Cons d xs)
  obtain ty' tm i where d: "d = (ty', tm, i)" by (cases d)
  show ?case using Cons by (auto simp: d)
qed

lemma delivered_first_split:
  "delivered_first ty a b ds \<Longrightarrow> a \<noteq> b \<Longrightarrow> ds = pre @ (ty, tm, Some b) # post \<Longrightarrow>
   \<exists>tm'. (ty, tm', Some a) \<in> set pre"
  by (auto simp: delivered_first_append split: if_splits)

lemma sorted_zadd1: "sorted zs \<Longrightarrow> sorted (zadd1 e zs)"
  using sorted_filter [of "\<lambda>x. x" zs] by (simp add: zadd1_def sorted_insort)

lemma set_zadd1: "set (zadd1 e zs) = insert e {x \<in> set zs. snd x \<noteq> snd e}"
  by (auto simp: zadd1_def set_insort_key)

lemma distinct_zadd1: "distinct (map snd zs) \<Longrightarrow> distinct (map snd (zadd1 e zs))"
proof -
  assume d: "distinct (map snd zs)"
  have "distinct (map snd (filter (\<lambda>x. snd x \<noteq> snd e) zs))"
    using d by (simp add: distinct_map_filter)
  moreover have "snd e \<notin> snd ` set (filter (\<lambda>x. snd x \<noteq> snd e) zs)"
    by auto
  ultimately show ?thesis
    unfolding zadd1_def
    by (simp add: distinct_map distinct_insort set_insort_key inj_on_def)
qed

lemma zset_member_score:
  "distinct (map snd zs) \<Longrightarrow> (s, m) \<in> set zs \<Longrightarrow> (s', m) \<in> set zs \<Longrightarrow> s = s'"
  by (induction zs) (auto simp: image_iff)

lemma getNextJob_inv:
  assumes inv: "order_inv n0 f ty a pa b w" and wl: "waitlist (w_disp w) ty' \<noteq> []"
  shows "order_inv n0 f ty a pa b (snd (Dispatcher_getNextJob f ty' w))"
proof -
  define w' where "w' = snd (Dispatcher_getNextJob f ty' w)"
  define zs where "zs = zsets (w_store w) (waitKey f ty)"
  define ds where "ds = drop n0 (delegated (w_disp w))"
  from inv have srt: "sorted zs" and li: "loop_inv (w_disp w)"
    and n0: "n0 \<le> length (delegated (w_disp w))" and df: "delivered_first ty a b ds"
    and az: "(\<forall>tm. (ty, tm, Some a) \<notin> set ds) \<longrightarrow>
              (- pa, a) \<in> set zs \<and> (\<forall>s. (s, b) \<in> set zs \<longrightarrow> - pa < s)"
    by (simp_all add: order_inv_def Let_def zs_def ds_def)
  from getNextJob_effect [OF wl, of f] consider
    (same) "zsets (w_store w') = zsets (w_store w)" "delegated (w_disp w') = delegated (w_disp w)"
      "waitlist (w_disp w') = waitlist (w_disp w)"
      "\<forall>ty. ty \<noteq> ty' \<longrightarrow> pending (w_disp w') ty = pending (w_disp w) ty"
  | (none) tm rest where "waitlist (w_disp w) ty' = tm # rest"
      "waitlist (w_disp w') = (waitlist (w_disp w))(ty' := rest)"
      "pending (w_disp w') = (pending (w_disp w))(ty' := rest \<noteq> [])"
      "zsets (w_store w') = zsets (w_store w)"
      "delegated (w_disp w') = delegated (w_disp w) @ [(ty', tm, None)]"
  | (pop) tm rest e es where "waitlist (w_disp w) ty' = tm # rest"
      "waitlist (w_disp w') = (waitlist (w_disp w))(ty' := rest)"
      "pending (w_disp w') = (pending (w_disp w))(ty' := rest \<noteq> [])"
      "zsets (w_store w) (waitKey f ty') = e # es"
      "zsets (w_store w') = (zsets (w_store w))(waitKey f ty' := es)"
      "delegated (w_disp w') = delegated (w_disp w) @ [(ty', tm, Some (snd e))]"
    unfolding w'_def by blast
  then have "order_inv n0 f ty a pa b w'"
  proof cases
    case same
    have "loop_inv (w_disp w')"
      using li wl same unfolding loop_inv_def by metis
    with same srt n0 df az show ?thesis
      by (simp add: order_inv_def Let_def zs_def ds_def)
  next
    case none
    have li': "loop_inv (w_disp w')"
      using li none unfolding loop_inv_def by auto
    have ds': "drop n0 (delegated (w_disp w')) = ds @ [(ty', tm, None)]"
      using n0 none by (simp add: ds_def)
    have df': "delivered_first ty a b (ds @ [(ty', tm, None)])"
      using df by (simp add: delivered_first_append)
    show ?thesis
      using srt li' n0 df' az none ds'
      by (auto simp: order_inv_def Let_def zs_def)
  next
    case pop
    have li': "loop_inv (w_disp w')"
      using li pop unfolding loop_inv_def by auto
    have ds': "drop n0 (delegated (w_disp w')) = ds @ [(ty', tm, Some (snd e))]"
      using n0 pop by (simp add: ds_def)
    have len: "n0 \<le> length (delegated (w_disp w'))"
      using n0 pop by simp
    show ?thesis
    proof (cases "ty' = ty")
      case False
      then have key: "waitKey f ty' \<noteq> waitKey f ty"
        using waitKey_inj by blast
      have zs': "zsets (w_store w') (waitKey f ty) = zs"
        using pop key by (simp add: zs_def)
      have df': "delivered_first ty a b (ds @ [(ty', tm, Some (snd e))])"
        using df False by (simp add: delivered_first_append)
      show ?thesis
        using srt li' len df' az zs' ds' False
        by (auto simp: order_inv_def Let_def)
    next
      case True
      have zse: "zs = e # es"
        using pop True by (simp add: zs_def)
      have zs': "zsets (w_store w') (waitKey f ty) = es"
        using pop True by simp
      have srt': "sorted es"
        using srt zse by simp
      have le: "\<forall>x \<in> set es. e \<le> x"
        using srt zse by simp
      show ?thesis
      proof (cases "\<exists>tm. (ty, tm, Some a) \<in> set ds")
        case True
        then have "delivered_first ty a b (ds @ [(ty', tm, Some (snd e))])"
          using df by (simp add: delivered_first_append)
        with True srt' li' len zs' ds' show ?thesis
          by (auto simp: order_inv_def Let_def)
      next
        case False
        with az have ain: "(- pa, a) \<in> set zs" and bs: "\<forall>s. (s, b) \<in> set zs \<longrightarrow> - pa < s"
          by auto
        have notb: "snd e \<noteq> b \<or> snd e = a"
        proof (rule ccontr)
          assume "\<not> (snd e \<noteq> b \<or> snd e = a)"
          then have eb: "snd e = b" and ne: "snd e \<noteq> a" by auto
          then have "(fst e, b) \<in> set zs" using zse by (cases e) auto
          with bs have lt: "- pa < fst e" by blast
          from ain zse ne have "(- pa, a) \<in> set es" by (cases e) auto
          with le have "e \<le> (- pa, a)" by blast
          then have "fst e \<le> - pa" by (cases e) (auto simp: less_eq_prod_def)
          with lt show False by simp
        qed
        have df': "delivered_first ty a b (ds @ [(ty', tm, Some (snd e))])"
          using df False notb \<open>ty' = ty\<close> by (auto simp: delivered_first_append)
        have rest: "(\<forall>tm'. (ty, tm', Some a) \<notin> set (ds @ [(ty', tm, Some (snd e))])) \<longrightarrow>
              (- pa, a) \<in> set es \<and> (\<forall>s. (s, b) \<in> set es \<longrightarrow> - pa < s)"
        proof
          assume na: "\<forall>tm'. (ty, tm', Some a) \<notin> set (ds @ [(ty', tm, Some (snd e))])"
          then have "snd e \<noteq> a" using \<open>ty' = ty\<close> by auto
          with ain zse have "(- pa, a) \<in> set es" by (cases e) auto
          moreover have "\<forall>s. (s, b) \<in> set es \<longrightarrow> - pa < s"
            using bs zse by auto
          ultimately show "(- pa, a) \<in> set es \<and> (\<forall>s. (s, b) \<in> set es \<longrightarrow> - pa < s)" by blast
        qed
        show ?thesis
          using srt' li' len df' rest zs' ds'
          by (simp add: order_inv_def Let_def)
      qed
    qed
  qed
  then show ?thesis by (simp add: w'_def)
qed


lemma save_disp: "w_disp (snd (snd (Task_save f t w))) = w_disp w"
  by (simp add: Task_save_def Let_def execute_def case_prod_beta)

lemma save_zsets:
  "zsets (w_store (snd (snd (Task_save f t w)))) = zsets (w_store w)
   \<or> zsets (w_store (snd (snd (Task_save f t w))))
       = (zsets (w_store w))(waitKey f (t_type t) :=
            zadd1 (- priority (t_metadata t), t_id t) (zsets (w_store w) (waitKey f (t_type t))))"
  unfolding task_op_defs
  by (auto split: option.splits if_splits sum.splits prod.splits reply.splits)

lemma save_inv:
  assumes inv: "order_inv n0 f ty a pa b w" and ids: "t_id t \<noteq> a" "t_id t \<noteq> b"
  shows "order_inv n0 f ty a pa b (snd (snd (Task_save f t w)))"
proof -
  define w' where "w' = snd (snd (Task_save f t w))"
  define zs where "zs = zsets (w_store w) (waitKey f ty)"
  have d: "w_disp w' = w_disp w" by (simp add: w'_def save_disp)
  have z: "zsets (w_store w') (waitKey f ty) = zs
           \<or> zsets (w_store w') (waitKey f ty) = zadd1 (- priority (t_metadata t), t_id t) zs"
    using save_zsets [of f t w] by (auto simp: w'_def zs_def)
  from inv have srt: "sorted zs"
    and az: "(\<forall>tm. (ty, tm, Some a) \<notin> set (drop n0 (delegated (w_disp w)))) \<longrightarrow>
              (- pa, a) \<in> set zs \<and> (\<forall>s. (s, b) \<in> set zs \<longrightarrow> - pa < s)"
    by (simp_all add: order_inv_def Let_def zs_def)
  from z have "order_inv n0 f ty a pa b w'"
  proof
    assume "zsets (w_store w') (waitKey f ty) = zs"
    with inv d show ?thesis by (simp add: order_inv_def Let_def zs_def)
  next
    assume z': "zsets (w_store w') (waitKey f ty) = zadd1 (- priority (t_metadata t), t_id t) zs"
    have "sorted (zadd1 (- priority (t_metadata t), t_id t) zs)"
      using srt by (rule sorted_zadd1)
    moreover have "(- pa, a) \<in> set zs \<Longrightarrow> (- pa, a) \<in> set (zadd1 (- priority (t_metadata t), t_id t) zs)"
      using ids by (simp add: set_zadd1)
    moreover have "(s, b) \<in> set (zadd1 (- priority (t_metadata t), t_id t) zs) \<Longrightarrow> (s, b) \<in> set zs" for s
      using ids by (auto simp: set_zadd1)
    ultimately show ?thesis
      using inv d z' az by (auto simp: order_inv_def Let_def zs_def)
  qed
  then show ?thesis by (simp add: w'_def)
qed

lemma delegate_inv:
  assumes inv: "order_inv n0 f ty a pa b w"
  shows "order_inv n0 f ty a pa b (Dispatcher_delegate f tm w)"
proof -
  define d where "d = w_disp w"
  define w1 where "w1 = w\<lparr>w_disp := d\<lparr>waitlist := (waitlist d)(team_name tm := waitlist d (team_name tm) @ [tm])\<rparr>\<rparr>"
  have "loop_inv (w_disp w1)"
    using inv by (auto simp: order_inv_def Let_def loop_inv_def w1_def d_def)
  with inv have inv1: "order_inv n0 f ty a pa b w1"
    by (simp add: order_inv_def Let_def w1_def d_def)
  have wl: "waitlist (w_disp w1) (team_name tm) \<noteq> []"
    by (simp add: w1_def)
  have "Dispatcher_delegate f tm w =
          (if waitlist d (team_name tm) \<noteq> [] then w1
           else snd (Dispatcher_getNextJob f (team_name tm) w1))"
    by (simp add: Dispatcher_delegate_def Let_def w1_def d_def)
  then show ?thesis
    using inv1 getNextJob_inv [OF inv1 wl] by simp
qed

lemma resume_inv:
  assumes inv: "order_inv n0 f ty a pa b w"
  shows "order_inv n0 f ty a pa b (resume f ty' w)"
proof (cases "pending (w_disp w) ty'")
  case True
  with inv have "waitlist (w_disp w) ty' \<noteq> []"
    by (simp add: order_inv_def Let_def loop_inv_def)
  from getNextJob_inv [OF inv this] True show ?thesis by (simp add: resume_def)
next
  case False
  with inv show ?thesis by (simp add: resume_def)
qed

lemma run_inv:
  assumes "order_inv n0 f ty a pa b w"
    and "\<forall>t. Save t \<in> set evs \<longrightarrow> t_id t \<noteq> a \<and> t_id t \<noteq> b"
  shows "order_inv n0 f ty a pa b (fold (step f) evs w)"
  using assms
proof (induction evs arbitrary: w)
  case Nil
  then show ?case by simp
next
  case (Cons e evs)
  have "order_inv n0 f ty a pa b (step f e w)"
  proof (cases e)
    case (Save t)
    with Cons.prems show ?thesis by (simp add: save_inv)
  next
    case (Delegate tm)
    with Cons.prems show ?thesis by (simp add: delegate_inv)
  next
    case (Resume ty')
    with Cons.prems show ?thesis by (simp add: resume_inv)
  qed
  with Cons show ?case by simp
qed

lemma wf_zset_tl: "wf_zset (e # es) \<Longrightarrow> wf_zset es"
  by (simp add: wf_zset_def)

lemma wf_zset_zadd1: "wf_zset zs \<Longrightarrow> wf_zset (zadd1 e zs)"
  by (simp add: wf_zset_def sorted_zadd1 distinct_zadd1)

lemma start_store_inv: "store_inv start"
  by (simp add: store_inv_def start_def empty_store_def new_Dispatcher_def wf_zset_def loop_inv_def)

lemma getNextJob_store_inv:
  assumes inv: "store_inv w" and wl: "waitlist (w_disp w) ty' \<noteq> []"
  shows "store_inv (snd (Dispatcher_getNextJob f ty' w))"
proof -
  define w' where "w' = snd (Dispatcher_getNextJob f ty' w)"
  from inv have wf: "\<And>k. wf_zset (zsets (w_store w) k)" and li: "loop_inv (w_disp w)"
    by (simp_all add: store_inv_def)
  from getNextJob_effect [OF wl, of f] consider
    (same) "zsets (w_store w') = zsets (w_store w)"
      "waitlist (w_disp w') = waitlist (w_disp w)"
      "\<forall>ty. ty \<noteq> ty' \<longrightarrow> pending (w_disp w') ty = pending (w_disp w) ty"
  | (none) tm rest where "waitlist (w_disp w) ty' = tm # rest"
      "waitlist (w_disp w') = (waitlist (w_disp w))(ty' := rest)"
      "pending (w_disp w') = (pending (w_disp w))(ty' := rest \<noteq> [])"
      "zsets (w_store w') = zsets (w_store w)"
  | (pop) tm rest e es where "waitlist (w_disp w) ty' = tm # rest"
      "waitlist (w_disp w') = (waitlist (w_disp w))(ty' := rest)"
      "pending (w_disp w') = (pending (w_disp w))(ty' := rest \<noteq> [])"
      "zsets (w_store w) (waitKey f ty') = e # es"
      "zsets (w_store w') = (zsets (w_store w))(waitKey f ty' := es)"
    unfolding w'_def by blast
  then have "store_inv w'"
  proof cases
    case same
    have "loop_inv (w_disp w')"
      using li wl same unfolding loop_inv_def by metis
    with same wf show ?thesis by (simp add: store_inv_def)
  next
    case none
    have "loop_inv (w_disp w')"
      using li none unfolding loop_inv_def by auto
    with none wf show ?thesis by (simp add: store_inv_def)
  next
    case pop
    have "loop_inv (w_disp w')"
      using li pop unfolding loop_inv_def by auto
    moreover have "wf_zset es"
      using wf [of "waitKey f ty'"] pop by (simp add: wf_zset_tl)
    ultimately show ?thesis
      using pop wf by (simp add: store_inv_def)
  qed
  then show ?thesis by (simp add: w'_def)
qed

lemma step_store_inv:
  assumes inv: "store_inv w"
  shows "store_inv (step f e w)"
proof (cases e)
  case (Save t)
  have "\<And>k. wf_zset (zsets (w_store (snd (snd (Task_save f t w)))) k)"
    using save_zsets [of f t w] inv by (auto simp: store_inv_def wf_zset_zadd1)
  with inv Save show ?thesis by (simp add: store_inv_def save_disp)
next
  case (Delegate tm)
  define d where "d = w_disp w"
  define w1 where "w1 = w\<lparr>w_disp := d\<lparr>waitlist := (waitlist d)(team_name tm := waitlist d (team_name tm) @ [tm])\<rparr>\<rparr>"
  have inv1: "store_inv w1"
    using inv by (auto simp: store_inv_def loop_inv_def w1_def d_def)
  have wl: "waitlist (w_disp w1) (team_name tm) \<noteq> []"
    by (simp add: w1_def)
  have "Dispatcher_delegate f tm w =
          (if waitlist d (team_name tm) \<noteq> [] then w1
           else snd (Dispatcher_getNextJob f (team_name tm) w1))"
    by (simp add: Dispatcher_delegate_def Let_def w1_def d_def)
  then show ?thesis
    using Delegate inv1 getNextJob_store_inv [OF inv1 wl] by simp
next
  case (Resume ty')
  show ?thesis
  proof (cases "pending (w_disp w) ty'")
    case True
    with inv have "waitlist (w_disp w) ty' \<noteq> []"
      by (simp add: store_inv_def loop_inv_def)
    from getNextJob_store_inv [OF inv this] True Resume show ?thesis by (simp add: resume_def)
  next
    case False
    with inv Resume show ?thesis by (simp add: resume_def)
  qed
qed

lemma run_store_inv: "store_inv w \<Longrightarrow> store_inv (fold (step f) evs w)"
  by (induction evs arbitrary: w) (simp_all add: step_store_inv)

lemma reachable_store_inv: "store_inv (fold (step f) evs start)"
  using run_store_inv [OF start_store_inv] .

text \<open>
  C1. Two tasks of the same type are waiting: the sorted set of the type holds both ids
  under their negated priorities, and the first has the greater priority. Then in every
  run of the process from there (workers asking for work, outstanding calls of
  \<open>getNextJob\<close> going on, other tasks being saved, in any order and whatever the
  connection does), if the id of the second task is handed to a worker, the id of the
  first was handed to a worker before it. The order in which the two were saved plays
  no part: only their presence in the sorted set is assumed.
\<close>

theorem higher_priority_delivered_first:
  assumes "waiting f a w" and "waiting f b w" and "t_type a = t_type b"
    and "priority (t_metadata b) < priority (t_metadata a)"
    and "wf_zset (zsets (w_store w) (waitKey f (t_type a)))"
    and "loop_inv (w_disp w)"
    and "\<forall>t. Save t \<in> set evs \<longrightarrow> t_id t \<noteq> t_id a \<and> t_id t \<noteq> t_id b"
    and "deliveries w (fold (step f) evs w) = pre @ (t_type a, tm, Some (t_id b)) # post"
  shows "\<exists>tm'. (t_type a, tm', Some (t_id a)) \<in> set pre"
proof -
  define zs where "zs = zsets (w_store w) (waitKey f (t_type a))"
  define n0 where "n0 = length (delegated (w_disp w))"
  have ain: "(- priority (t_metadata a), t_id a) \<in> set zs"
    and bin: "(- priority (t_metadata b), t_id b) \<in> set zs"
    using assms(1,2,3) by (simp_all add: waiting_def zs_def)
  have srt: "sorted zs" and dst: "distinct (map snd zs)"
    using assms(5) by (simp_all add: wf_zset_def zs_def)
  have ne: "t_id a \<noteq> t_id b"
  proof
    assume "t_id a = t_id b"
    with bin have "(- priority (t_metadata b), t_id a) \<in> set zs" by simp
    from zset_member_score [OF dst ain this] assms(4) show False by simp
  qed
  have bs: "\<forall>s. (s, t_id b) \<in> set zs \<longrightarrow> - priority (t_metadata a) < s"
  proof (intro allI impI)
    fix s assume "(s, t_id b) \<in> set zs"
    from zset_member_score [OF dst bin this] assms(4)
    show "- priority (t_metadata a) < s" by simp
  qed
  have "order_inv n0 f (t_type a) (t_id a) (priority (t_metadata a)) (t_id b) w"
    using srt assms(6) ain bs by (simp add: order_inv_def Let_def zs_def n0_def)
  from run_inv [OF this assms(7)]
  have "delivered_first (t_type a) (t_id a) (t_id b) (deliveries w (fold (step f) evs w))"
    by (simp add: order_inv_def Let_def deliveries_def n0_def)
  from delivered_first_split [OF this ne assms(8)] show ?thesis .
qed


lemmas delivery_eval_defs = sample_defs task_op_defs Dispatcher_delegate_def
  Dispatcher_getNextJob_def runTask_def blockPop_def sortedPop_def deliveries_def

lemmas run_eval_defs = task_X_def task_Y_def task_Z_def both_saved_def delivery_eval_defs
  waiting_def wf_zset_def loop_inv_def

lemma both_saved_eval:
  "zsets (w_store both_saved) ''q:tasks:email:waiting'' = [(- 10, ''5''), (0, ''4'')]"
  "lists (w_store both_saved) ''q:tasks:email'' = [''4'', ''5'']"
  "w_disp both_saved = new_Dispatcher"
  by (simp_all add: run_eval_defs)

theorem higher_priority_delivered_first_witness:
  "waiting queue_factory task_X both_saved \<and> waiting queue_factory task_Y both_saved
   \<and> t_type task_X = t_type task_Y
   \<and> priority (t_metadata task_Y) < priority (t_metadata task_X)
   \<and> wf_zset (zsets (w_store both_saved) (waitKey queue_factory (t_type task_X)))
   \<and> loop_inv (w_disp both_saved)
   \<and> t_id task_Z \<noteq> t_id task_X \<and> t_id task_Z \<noteq> t_id task_Y
   \<and> deliveries both_saved
        (fold (step queue_factory)
           [Delegate email_team, Save task_Z, Delegate email_team, Delegate email_team] both_saved)
       = [(''email'', email_team, Some ''5''), (''email'', email_team, Some ''6'')]
         @ (t_type task_X, email_team, Some (t_id task_Y)) # []
   \<and> (\<exists>tm'. (t_type task_X, tm', Some (t_id task_X))
          \<in> set [(''email'', email_team, Some ''5''), (''email'', email_team, Some ''6'')])"
proof -
  have h: "waiting queue_factory task_X both_saved" "waiting queue_factory task_Y both_saved"
    "t_type task_X = t_type task_Y"
    "priority (t_metadata task_Y) < priority (t_metadata task_X)"
    "wf_zset (zsets (w_store both_saved) (waitKey queue_factory (t_type task_X)))"
    "loop_inv (w_disp both_saved)"
    "\<forall>t. Save t \<in> set [Delegate email_team, Save task_Z, Delegate email_team, Delegate email_team]
          \<longrightarrow> t_id t \<noteq> t_id task_X \<and> t_id t \<noteq> t_id task_Y"
    by (simp_all add: run_eval_defs)
  have d: "deliveries both_saved
        (fold (step queue_factory)
           [Delegate email_team, Save task_Z, Delegate email_team, Delegate email_team] both_saved)
       = [(''email'', email_team, Some ''5''), (''email'', email_team, Some ''6'')]
         @ (t_type task_X, email_team, Some (t_id task_Y)) # []"
    by (simp add: run_eval_defs)
  have z: "t_id task_Z \<noteq> t_id task_X" "t_id task_Z \<noteq> t_id task_Y"
    by (simp_all add: run_eval_defs)
  from higher_priority_delivered_first [OF h d] h(1-6) d z show ?thesis by blast
qed

section \<open>Equal priorities\<close>

text \<open>
  C2 fails on the code. The tasks 9 and 10 of type \<open>email\<close> are saved with the same
  priority, 9 first. The sorted set holds both under the score 0, and the store orders
  members of equal score by their bytes, so \<open>10\<close> comes before \<open>9\<close>: the first idle
  worker receives the id 10, the second the id 9.
\<close>

theorem equal_priority_not_fifo:
  "deliveries start
     (fold (step queue_factory)
        [Save (email_task ''9'' no_options), Save (email_task ''10'' no_options),
         Delegate email_team, Delegate email_team] start)
   = [(''email'', email_team, Some ''10''), (''email'', email_team, Some ''9'')]"
  by (simp add: delivery_eval_defs)

end
